theory Spec2Isabelle
  imports Complex_Main "HOL-Library.Product_Lexorder" "HOL-Library.Sublist"
begin

section \<open>SPLADE golden-data generator: \<open>tools/splade_generate_golden.py\<close>\<close>

text \<open>
  A shallow embedding of the generator script. Conventions of the embedding:
  \<^item> Python \<open>int\<close> is \<^typ>\<open>int\<close>; list positions and vocabulary ids are \<^typ>\<open>nat\<close>.
  \<^item> Python \<open>float\<close> (tensor entries after \<open>.tolist()\<close>, the prune threshold) is
    \<^typ>\<open>real\<close>: the embedding covers the finite floats, on which \<open>\<le>\<close>, \<open><\<close> and unary
    minus are exact, and reads \<open>log1p\<close> as the real function. Not-a-number and the
    infinities have no counterpart in \<^typ>\<open>real\<close>.
  \<^item> Python \<open>str\<close> is \<^typ>\<open>string\<close>; a character stands for its code point (below 256).
  \<^item> The tokenizer, the masked-language model and the other library calls are parameters.
\<close>

subsection \<open>Errors\<close>

text \<open>The exceptions that the modelled calls raise. An uncaught exception ends the
  process with a traceback (exit status 1), never with status 2.\<close>

datatype error =
    FileNotFoundError
  | IsADirectoryError
  | NotADirectoryError
  | FileExistsError
  | ValueError
  | IndexError
  | RuntimeError
  | OSError

fun sequence_err :: "(error + 'a) list \<Rightarrow> error + 'a list" where
  "sequence_err [] = Inr []"
| "sequence_err (x # xs) =
     (case x of
        Inl e \<Rightarrow> Inl e
      | Inr v \<Rightarrow> (case sequence_err xs of Inl e \<Rightarrow> Inl e | Inr vs \<Rightarrow> Inr (v # vs)))"

subsection \<open>Strings\<close>

text \<open>\<open>str.isspace\<close> on the code points below 256: tab to carriage return, the four
  separators 28-31, the space, next-line (133) and the no-break space (160).\<close>

definition isspace :: "char \<Rightarrow> bool" where
  "isspace c =
     (let n = (of_char c :: nat)
      in (9 \<le> n \<and> n \<le> 13) \<or> (28 \<le> n \<and> n \<le> 32) \<or> n = 133 \<or> n = 160)"

definition lstrip :: "string \<Rightarrow> string" where
  "lstrip s = dropWhile isspace s"

definition rstrip :: "string \<Rightarrow> string" where
  "rstrip s = rev (dropWhile isspace (rev s))"

definition strip :: "string \<Rightarrow> string" where
  "strip s = rstrip (lstrip s)"

text \<open>\<open>str(n)\<close> for a non-negative integer: its decimal digits.\<close>

definition digit_char :: "nat \<Rightarrow> char" where
  "digit_char d = ''0123456789'' ! d"

function str_nat :: "nat \<Rightarrow> string" where
  "str_nat n = (if n < 10 then [digit_char n] else str_nat (n div 10) @ [digit_char (n mod 10)])"
  by pat_completeness auto
termination
  by (relation "measure id") auto

declare str_nat.simps [simp del]

subsection \<open>Files\<close>

text \<open>A path is the list of its components below the root; the root is always a
  directory. A file holds its decoded text.\<close>

type_synonym path = "string list"

datatype node = File string | Dir

type_synonym filesystem = "path \<rightharpoonup> node"

definition node_at :: "filesystem \<Rightarrow> path \<Rightarrow> node option" where
  "node_at fs p = (if p = [] then Some Dir else fs p)"

definition parent :: "path \<Rightarrow> path" where
  "parent p = butlast p"

definition str_path :: "path \<Rightarrow> string" where
  "str_path p = concat (map (\<lambda>c. CHR ''/'' # c) p)"

text \<open>Iterating over a file opened in text mode: universal newlines (\<open>\r\n\<close> and a lone
  \<open>\r\<close> read as \<open>\n\<close>), each line with its terminator, a last line without one when the
  file does not end in a newline.\<close>

fun universal_newlines :: "string \<Rightarrow> string" where
  "universal_newlines [] = []"
| "universal_newlines [c] = (if c = CHR 0x0D then [CHR 0x0A] else [c])"
| "universal_newlines (c # d # ds) =
     (if c = CHR 0x0D \<and> d = CHR 0x0A then CHR 0x0A # universal_newlines ds
      else if c = CHR 0x0D then CHR 0x0A # universal_newlines (d # ds)
      else c # universal_newlines (d # ds))"

fun split_lines :: "string \<Rightarrow> string \<Rightarrow> string list" where
  "split_lines cur [] = (if cur = [] then [] else [cur])"
| "split_lines cur (c # cs) =
     (if c = CHR 0x0A then (cur @ [c]) # split_lines [] cs else split_lines (cur @ [c]) cs)"

definition readlines :: "string \<Rightarrow> string list" where
  "readlines content = split_lines [] (universal_newlines content)"

definition open_r :: "filesystem \<Rightarrow> path \<Rightarrow> error + string list" where
  "open_r fs p =
     (case node_at fs p of
        None \<Rightarrow> Inl FileNotFoundError
      | Some Dir \<Rightarrow> Inl IsADirectoryError
      | Some (File content) \<Rightarrow> Inr (readlines content))"

text \<open>\<open>Path.mkdir(parents=True, exist_ok=True)\<close>: an existing directory is accepted, an
  existing file is an error, missing ancestors are created first.\<close>

function mkdir_parents :: "filesystem \<Rightarrow> path \<Rightarrow> error + filesystem" where
  "mkdir_parents fs d =
     (case node_at fs d of
        Some Dir \<Rightarrow> Inr fs
      | Some (File c) \<Rightarrow> Inl FileExistsError
      | None \<Rightarrow>
          (case node_at fs (parent d) of
             Some Dir \<Rightarrow> Inr (fs(d \<mapsto> Dir))
           | Some (File c) \<Rightarrow> Inl NotADirectoryError
           | None \<Rightarrow>
               (case mkdir_parents fs (parent d) of
                  Inl e \<Rightarrow> Inl e
                | Inr fs' \<Rightarrow> Inr (fs'(d \<mapsto> Dir)))))"
  by pat_completeness auto
termination
  by (relation "measure (\<lambda>(fs, d). length d)")
     (auto simp: node_at_def parent_def split: if_splits)

declare mkdir_parents.simps [simp del]

text \<open>\<open>path.open("w")\<close> creates the file or truncates it; \<open>handle.write\<close> appends to
  what the handle has written so far.\<close>

definition open_w :: "filesystem \<Rightarrow> path \<Rightarrow> error + filesystem" where
  "open_w fs p =
     (case node_at fs p of
        Some Dir \<Rightarrow> Inl IsADirectoryError
      | _ \<Rightarrow>
          (case node_at fs (parent p) of
             Some Dir \<Rightarrow> Inr (fs(p \<mapsto> File []))
           | Some (File c) \<Rightarrow> Inl NotADirectoryError
           | None \<Rightarrow> Inl FileNotFoundError))"

definition handle_write :: "path \<Rightarrow> filesystem \<Rightarrow> string \<Rightarrow> filesystem" where
  "handle_write p fs s =
     (case fs p of Some (File content) \<Rightarrow> fs(p \<mapsto> File (content @ s)) | _ \<Rightarrow> fs)"

subsection \<open>\<open>load_texts\<close>\<close>

definition load_step :: "string list \<Rightarrow> string \<Rightarrow> string list" where
  "load_step texts line = (let text = strip line in if text \<noteq> [] then texts @ [text] else texts)"

definition load_texts :: "filesystem \<Rightarrow> string list \<Rightarrow> path option \<Rightarrow> error + string list" where
  "load_texts fs inline_texts texts_file =
     (case texts_file of
        None \<Rightarrow> Inr inline_texts
      | Some file \<Rightarrow>
          (case open_r fs file of
             Inl e \<Rightarrow> Inl e
           | Inr lines \<Rightarrow> Inr (foldl load_step inline_texts lines)))"

subsection \<open>\<open>resolve_device\<close>\<close>

text \<open>What the script asks of \<open>torch\<close> about accelerators.\<close>

record torch_backends =
  cuda_is_available :: bool
  has_mps :: bool
  mps_is_available :: bool

definition resolve_device :: "torch_backends \<Rightarrow> string \<Rightarrow> string" where
  "resolve_device torch device_arg =
     (if device_arg \<noteq> ''auto'' then device_arg
      else if cuda_is_available torch then ''cuda''
      else if has_mps torch \<and> mps_is_available torch then ''mps''
      else ''cpu'')"

subsection \<open>The access token (line 253)\<close>

text \<open>\<open>os.getenv(name, "").strip() or None\<close>.\<close>

definition getenv :: "(string \<rightharpoonup> string) \<Rightarrow> string \<Rightarrow> string \<Rightarrow> string" where
  "getenv env name dflt = (case env name of None \<Rightarrow> dflt | Some v \<Rightarrow> v)"

definition resolve_hf_token :: "(string \<rightharpoonup> string) \<Rightarrow> string \<Rightarrow> string option" where
  "resolve_hf_token env name =
     (let s = strip (getenv env name []) in if s \<noteq> [] then Some s else None)"

subsection \<open>\<open>batched\<close>\<close>

text \<open>\<open>range(0, len(items), batch_size)\<close> for a positive step, and the slices
  \<open>items[start : start + batch_size]\<close>.\<close>

function batched_from :: "'a list \<Rightarrow> nat \<Rightarrow> nat \<Rightarrow> 'a list list" where
  "batched_from items step start =
     (if step = 0 \<or> length items \<le> start then []
      else take step (drop start items) # batched_from items step (start + step))"
  by pat_completeness auto
termination
  by (relation "measure (\<lambda>(items, step, start). length items - start)") auto

declare batched_from.simps [simp del]

text \<open>A step of 0 makes \<open>range\<close> raise \<open>ValueError\<close>; a negative step gives the empty
  range.\<close>

definition batched :: "'a list \<Rightarrow> int \<Rightarrow> error + 'a list list" where
  "batched items batch_size =
     (if batch_size = 0 then Inl ValueError
      else if batch_size < 0 then Inr []
      else Inr (batched_from items (nat batch_size) 0))"

subsection \<open>Tokenizer and model\<close>

text \<open>The tensors of a tokenizer call, \<open>[batch, seq_len]\<close> each.\<close>

record batch_encoding =
  input_ids :: "nat list list"
  attention_mask :: "int list list"

text \<open>The tokenizer is a parameter: \<open>tokenize tok texts n\<close> is the call
  \<open>tokenizer(texts, return_tensors="pt", truncation=True, padding="max_length", max_length=n)\<close>,
  \<open>id_to_token\<close> the vocabulary lookup behind \<open>convert_ids_to_tokens\<close>.\<close>

record tokenizer =
  tokenize :: "string list \<Rightarrow> int \<Rightarrow> batch_encoding"
  id_to_token :: "nat \<Rightarrow> string"

definition convert_ids_to_tokens :: "tokenizer \<Rightarrow> nat list \<Rightarrow> string list" where
  "convert_ids_to_tokens tok ids = map (id_to_token tok) ids"

text \<open>The model is a parameter: the logits \<open>[batch, seq_len, vocab]\<close> of a forward pass.\<close>

type_synonym model = "batch_encoding \<Rightarrow> real list list list"

subsection \<open>Sparse vectors\<close>

record sparse_vector =
  indices :: "nat list"
  sparse_values :: "real list"
  labels :: "string list"

subsection \<open>\<open>dense_row_to_sparse\<close>\<close>

text \<open>Lines 184-189: the loop over \<open>enumerate(values)\<close> that appends the pairs whose
  value is not \<open>\<le> prune_threshold\<close>.\<close>

definition prune_step :: "real \<Rightarrow> (nat \<times> real) list \<Rightarrow> nat \<times> real \<Rightarrow> (nat \<times> real) list" where
  "prune_step prune_threshold pairs item =
     (case item of (idx, value) \<Rightarrow>
        if value \<le> prune_threshold then pairs else pairs @ [(idx, value)])"

definition prune_pairs :: "real list \<Rightarrow> real \<Rightarrow> (nat \<times> real) list" where
  "prune_pairs values prune_threshold =
     foldl (prune_step prune_threshold) [] (enumerate 0 values)"

text \<open>Lines 191-193: the stable sort on the key \<open>(-value, idx)\<close> (tuples compare
  lexicographically) and the slice \<open>pairs[:top_k]\<close>.\<close>

definition top_key :: "nat \<times> real \<Rightarrow> real \<times> nat" where
  "top_key item = (- snd item, fst item)"

definition select_top_k :: "int \<Rightarrow> (nat \<times> real) list \<Rightarrow> (nat \<times> real) list" where
  "select_top_k top_k pairs =
     (if 0 < top_k \<and> top_k < int (length pairs)
      then take (nat top_k) (sort_key top_key pairs)
      else pairs)"

text \<open>Lines 195-207: the re-sort by index, the two projections and the labels.\<close>

definition dense_row_to_sparse ::
  "real list \<Rightarrow> tokenizer \<Rightarrow> int \<Rightarrow> real \<Rightarrow> bool \<Rightarrow> sparse_vector" where
  "dense_row_to_sparse row tokenizer top_k prune_threshold with_labels =
     (let pairs = prune_pairs row prune_threshold;
          pairs = select_top_k top_k pairs;
          pairs = sort_key fst pairs;
          idxs = map fst pairs;
          vals = map snd pairs;
          labs = (if with_labels \<and> idxs \<noteq> [] then convert_ids_to_tokens tokenizer idxs else [])
      in \<lparr>indices = idxs, sparse_values = vals, labels = labs\<rparr>)"

subsection \<open>The command line and the configuration\<close>

text \<open>The namespace returned by \<open>parse_args\<close> (the field \<open>text\<close> is \<open>text_arg\<close> here).\<close>

record args =
  text_arg :: "string list"
  texts_file :: "path option"
  output_jsonl :: path
  metadata_path :: "path option"
  model_name :: string
  sequence_length :: int
  batch_size :: int
  top_k :: int
  prune_threshold :: real
  with_labels :: bool
  device :: string
  hf_token_env :: string

record encode_config =
  model_name :: string
  sequence_length :: int
  batch_size :: int
  top_k :: int
  prune_threshold :: real
  with_labels :: bool
  device :: string
  hf_token :: "string option"

subsection \<open>\<open>encode_batch_sparse\<close>\<close>

text \<open>\<open>torch.relu\<close> and \<open>torch.log1p\<close>, element-wise.\<close>

definition relu :: "real \<Rightarrow> real" where
  "relu x = max 0 x"

definition log1p :: "real \<Rightarrow> real" where
  "log1p x = ln (1 + x)"

text \<open>\<open>transformed * tokenized["attention_mask"].unsqueeze(-1)\<close>: the tensor
  \<open>[batch, seq_len, vocab]\<close> times the mask \<open>[batch, seq_len, 1]\<close>, the mask entry of a
  position multiplying the whole vocabulary vector of that position. On the batch axis
  and on the position axis the two tensors have the same size, or one of them has size 1
  and is broadcast along the other; otherwise \<open>torch\<close> raises \<open>RuntimeError\<close>.\<close>

definition mul_mask_doc :: "real list list \<Rightarrow> int list \<Rightarrow> error + real list list" where
  "mul_mask_doc rows ks =
     (if length rows = length ks
      then Inr (map2 (\<lambda>vec k. map (\<lambda>x. x * of_int k) vec) rows ks)
      else case rows of
             [vec] \<Rightarrow> Inr (map (\<lambda>k. map (\<lambda>x. x * of_int k) vec) ks)
           | _ \<Rightarrow>
               (case ks of
                  [k] \<Rightarrow> Inr (map (\<lambda>vec. map (\<lambda>x. x * of_int k) vec) rows)
                | _ \<Rightarrow> Inl RuntimeError))"

definition mul_mask :: "real list list list \<Rightarrow> int list list \<Rightarrow> error + real list list list" where
  "mul_mask transformed masks =
     (if length transformed = length masks
      then sequence_err (map2 mul_mask_doc transformed masks)
      else case transformed of
             [rows] \<Rightarrow> sequence_err (map (mul_mask_doc rows) masks)
           | _ \<Rightarrow>
               (case masks of
                  [ks] \<Rightarrow> sequence_err (map (\<lambda>rows. mul_mask_doc rows ks) transformed)
                | _ \<Rightarrow> Inl RuntimeError))"

text \<open>\<open>masked.max(dim=1).values\<close>: the element-wise maximum over the positions of each
  document; \<open>torch\<close> raises \<open>IndexError\<close> on a position axis of size 0.\<close>

definition max_dim1_doc :: "real list list \<Rightarrow> error + real list" where
  "max_dim1_doc rows =
     (case rows of [] \<Rightarrow> Inl IndexError | r # rs \<Rightarrow> Inr (foldl (map2 max) r rs))"

definition max_dim1 :: "real list list list \<Rightarrow> error + real list list" where
  "max_dim1 masked = sequence_err (map max_dim1_doc masked)"

text \<open>Lines 148-161: the dense rows \<open>[batch, vocab]\<close>.\<close>

definition dense_activations ::
  "string list \<Rightarrow> tokenizer \<Rightarrow> model \<Rightarrow> encode_config \<Rightarrow> error + real list list" where
  "dense_activations texts tokenizer model cfg =
     (let tokenized = tokenize tokenizer texts (sequence_length cfg);
          logits = model tokenized;
          transformed = map (map (map (\<lambda>x. log1p (relu x)))) logits
      in case mul_mask transformed (attention_mask tokenized) of
           Inl e \<Rightarrow> Inl e
         | Inr masked \<Rightarrow> max_dim1 masked)"

text \<open>Lines 163-174: one sparse vector per dense row.\<close>

definition encode_batch_sparse ::
  "string list \<Rightarrow> tokenizer \<Rightarrow> model \<Rightarrow> encode_config \<Rightarrow> error + sparse_vector list" where
  "encode_batch_sparse texts tokenizer model cfg =
     (case dense_activations texts tokenizer model cfg of
        Inl e \<Rightarrow> Inl e
      | Inr dense \<Rightarrow>
          Inr (map (\<lambda>row. dense_row_to_sparse row tokenizer
                       (top_k cfg) (prune_threshold cfg) (with_labels cfg)) dense))"

subsection \<open>Rows and the loop over the batches (lines 271-283)\<close>

text \<open>A row of the JSONL output: the keys \<open>id\<close>, \<open>text\<close>, \<open>indices\<close>, \<open>values\<close>,
  \<open>labels\<close> of the dictionary.\<close>

record golden_row =
  row_id :: string
  row_text :: string
  row_indices :: "nat list"
  row_values :: "real list"
  row_labels :: "string list"

text \<open>The body of the inner loop: the id is \<open>f"s{len(rows) + 1}"\<close>.\<close>

definition assemble_row :: "golden_row list \<Rightarrow> string \<times> sparse_vector \<Rightarrow> golden_row list" where
  "assemble_row rows item =
     (case item of (text, sparse) \<Rightarrow>
        rows @ [\<lparr>row_id = ''s'' @ str_nat (length rows + 1),
                 row_text = text,
                 row_indices = indices sparse,
                 row_values = sparse_values sparse,
                 row_labels = labels sparse\<rparr>])"

text \<open>The outer loop over \<open>enumerate(batched(texts, cfg.batch_size), start=1)\<close>, with the
  lines printed to the error stream and the rows so far as its state. An exception of the
  encoder ends it.\<close>

fun encode_batches ::
  "tokenizer \<Rightarrow> model \<Rightarrow> encode_config \<Rightarrow> (nat \<times> string list) list \<Rightarrow>
     string list \<Rightarrow> golden_row list \<Rightarrow> (error + golden_row list) \<times> string list" where
  "encode_batches tok m cfg [] err rows = (Inr rows, err)"
| "encode_batches tok m cfg ((i, batch) # rest) err rows =
     (let err' = err @ [''Encoding batch '' @ str_nat i @ '' ('' @ str_nat (length batch)
                          @ '' docs)'']
      in case encode_batch_sparse batch tok m cfg of
           Inl e \<Rightarrow> (Inl e, err')
         | Inr sparse_vectors \<Rightarrow>
             encode_batches tok m cfg rest err'
               (foldl assemble_row rows (zip batch sparse_vectors)))"

definition encode_all ::
  "tokenizer \<Rightarrow> model \<Rightarrow> encode_config \<Rightarrow> string list \<Rightarrow> string list \<Rightarrow>
     (error + golden_row list) \<times> string list" where
  "encode_all tok m cfg texts err =
     (case batched texts (batch_size cfg) of
        Inl e \<Rightarrow> (Inl e, err)
      | Inr batches \<Rightarrow> encode_batches tok m cfg (enumerate 1 batches) err [])"

subsection \<open>The output writers\<close>

text \<open>The serialisers are parameters: \<open>dumps row\<close> is
  \<open>json.dumps(row, ensure_ascii=False)\<close>, \<open>dump metadata\<close> the text that
  \<open>json.dump(metadata, handle, indent=2, ensure_ascii=False)\<close> writes.\<close>

definition write_row :: "('r \<Rightarrow> string) \<Rightarrow> path \<Rightarrow> filesystem \<Rightarrow> 'r \<Rightarrow> filesystem" where
  "write_row dumps p fs row = handle_write p (handle_write p fs (dumps row)) [CHR 0x0A]"

definition write_jsonl ::
  "('r \<Rightarrow> string) \<Rightarrow> filesystem \<Rightarrow> path \<Rightarrow> 'r list \<Rightarrow> error + filesystem" where
  "write_jsonl dumps fs p rows =
     (case mkdir_parents fs (parent p) of
        Inl e \<Rightarrow> Inl e
      | Inr fs1 \<Rightarrow>
          (case open_w fs1 p of
             Inl e \<Rightarrow> Inl e
           | Inr fs2 \<Rightarrow> Inr (foldl (write_row dumps p) fs2 rows)))"

text \<open>\<open>sha256_file\<close>: the digest of the bytes of the file, read in chunks; the hash
  function is a parameter.\<close>

definition sha256_file :: "(string \<Rightarrow> string) \<Rightarrow> filesystem \<Rightarrow> path \<Rightarrow> error + string" where
  "sha256_file hexdigest fs p =
     (case node_at fs p of
        None \<Rightarrow> Inl FileNotFoundError
      | Some Dir \<Rightarrow> Inl IsADirectoryError
      | Some (File content) \<Rightarrow> Inr (hexdigest content))"

definition write_metadata ::
  "('m \<Rightarrow> string) \<Rightarrow> filesystem \<Rightarrow> path \<Rightarrow> 'm \<Rightarrow> error + filesystem" where
  "write_metadata dump fs p metadata =
     (case mkdir_parents fs (parent p) of
        Inl e \<Rightarrow> Inl e
      | Inr fs1 \<Rightarrow>
          (case open_w fs1 p of
             Inl e \<Rightarrow> Inl e
           | Inr fs2 \<Rightarrow> Inr (handle_write p (handle_write p fs2 (dump metadata)) [CHR 0x0A])))"

subsection \<open>\<open>main\<close>\<close>

record run_settings =
  set_sequence_length :: int
  set_batch_size :: int
  set_top_k :: int
  set_prune_threshold :: real
  set_with_labels :: bool
  set_device :: string

record metadata =
  generated_at_utc :: string
  generator :: string
  source_type :: string
  model_repo :: string
  row_count :: nat
  dataset_digest_sha256 :: string
  settings :: run_settings
  request_payload_texts :: string
  response_shape :: string

text \<open>How \<open>argparse\<close> ends the process when it does not return a namespace: the exit
  status and what it has printed. A command line that the parser of lines 42-111 rejects
  (an unknown flag, a missing \<open>--output-jsonl\<close>, a value that is no \<open>int\<close> or \<open>float\<close>,
  a device outside the choices) gives status 2 with the usage and the error on the error
  stream; \<open>--help\<close> gives status 0 with the help on the standard output.\<close>

record system_exit =
  exit_status :: int
  to_stdout :: "string list"
  to_stderr :: "string list"

text \<open>The library calls of \<open>main\<close>, as parameters: \<open>parser.parse_args()\<close> on the command
  line, the accelerator queries, the two \<open>from_pretrained\<close> loaders, \<open>model.to(device)\<close>,
  the JSON serialisers and SHA-256.\<close>

record library =
  parse_args :: "string list \<Rightarrow> system_exit + args"
  backends :: torch_backends
  tokenizer_from_pretrained :: "string \<Rightarrow> string option \<Rightarrow> error + tokenizer"
  model_from_pretrained :: "string \<Rightarrow> string option \<Rightarrow> error + model"
  model_to :: "model \<Rightarrow> string \<Rightarrow> error + model"
  json_dumps :: "golden_row \<Rightarrow> string"
  json_dump :: "metadata \<Rightarrow> string"
  sha256_hexdigest :: "string \<Rightarrow> string"

text \<open>What \<open>main\<close> reads and changes: the command line, the files, the environment
  variables, the lines on the two output streams, the \<open>from_pretrained\<close> calls made so
  far, and the clock.\<close>

record world =
  argv :: "string list"
  filesys :: filesystem
  environ :: "string \<rightharpoonup> string"
  stdout :: "string list"
  stderr :: "string list"
  loaded :: "string list"
  utcnow_isoformat :: string

definition eprint :: "world \<Rightarrow> string \<Rightarrow> world" where
  "eprint w msg = w\<lparr>stderr := stderr w @ [msg]\<rparr>"

text \<open>Lines 285-317: the two files and the final messages.\<close>

definition main_write ::
  "library \<Rightarrow> args \<Rightarrow> encode_config \<Rightarrow> golden_row list \<Rightarrow> world \<Rightarrow> (error + int) \<times> world" where
  "main_write lib a cfg rows w =
     (case write_jsonl (json_dumps lib) (filesys w) (output_jsonl a) rows of
        Inl e \<Rightarrow> (Inl e, w)
      | Inr fs1 \<Rightarrow>
          (let w1 = w\<lparr>filesys := fs1\<rparr> in
           case sha256_file (sha256_hexdigest lib) fs1 (output_jsonl a) of
             Inl e \<Rightarrow> (Inl e, w1)
           | Inr digest \<Rightarrow>
               (let mpath = (case metadata_path a of
                               None \<Rightarrow> parent (output_jsonl a) @ [''metadata.json'']
                             | Some p \<Rightarrow> p);
                    md = \<lparr>generated_at_utc = utcnow_isoformat w1,
                          generator = ''local:tools/splade_generate_golden.py'',
                          source_type = ''local_transformers'',
                          model_repo = model_name cfg,
                          row_count = length rows,
                          dataset_digest_sha256 = digest,
                          settings = \<lparr>set_sequence_length = sequence_length cfg,
                                      set_batch_size = batch_size cfg,
                                      set_top_k = top_k cfg,
                                      set_prune_threshold = prune_threshold cfg,
                                      set_with_labels = with_labels cfg,
                                      set_device = device cfg\<rparr>,
                          request_payload_texts = ''batch_of_strings'',
                          response_shape = ''vectors[{indices,values,labels}]''\<rparr>
                in case write_metadata (json_dump lib) fs1 mpath md of
                     Inl e \<Rightarrow> (Inl e, w1)
                   | Inr fs2 \<Rightarrow>
                       (Inr 0,
                        eprint (eprint (eprint (w1\<lparr>filesys := fs2\<rparr>)
                          (''Wrote JSONL: '' @ str_path (output_jsonl a)))
                          (''Wrote metadata: '' @ str_path mpath))
                          (''Digest (SHA-256): '' @ digest)))))"

text \<open>Lines 252-283: the configuration, the two loaders and the encoding.\<close>

definition main_run ::
  "library \<Rightarrow> args \<Rightarrow> string list \<Rightarrow> world \<Rightarrow> (error + int) \<times> world" where
  "main_run lib a texts w =
     (let cfg = \<lparr>model_name = args.model_name a,
                 sequence_length = args.sequence_length a,
                 batch_size = args.batch_size a,
                 top_k = args.top_k a,
                 prune_threshold = args.prune_threshold a,
                 with_labels = args.with_labels a,
                 device = resolve_device (backends lib) (args.device a),
                 hf_token = resolve_hf_token (environ w) (hf_token_env a)\<rparr>;
          w1 = eprint w (''Loading tokenizer/model: '' @ model_name cfg);
          w2 = w1\<lparr>loaded := loaded w1 @ [''tokenizer'']\<rparr>
      in case tokenizer_from_pretrained lib (model_name cfg) (hf_token cfg) of
           Inl e \<Rightarrow> (Inl e, w2)
         | Inr tok \<Rightarrow>
             (let w3 = w2\<lparr>loaded := loaded w2 @ [''model'']\<rparr> in
              case model_from_pretrained lib (model_name cfg) (hf_token cfg) of
                Inl e \<Rightarrow> (Inl e, w3)
              | Inr m0 \<Rightarrow>
                  (case model_to lib m0 (device cfg) of
                     Inl e \<Rightarrow> (Inl e, w3)
                   | Inr m \<Rightarrow>
                       (case encode_all tok m cfg texts (stderr w3) of
                          (Inl e, err) \<Rightarrow> (Inl e, w3\<lparr>stderr := err\<rparr>)
                        | (Inr rows, err) \<Rightarrow> main_write lib a cfg rows (w3\<lparr>stderr := err\<rparr>)))))"

text \<open>Lines 235-250 and the hand-over to the rest: \<open>Inr c\<close> is \<open>return c\<close>, the exit
  status of the process; \<open>Inl e\<close> is an uncaught exception.\<close>

definition main_args :: "library \<Rightarrow> args \<Rightarrow> world \<Rightarrow> (error + int) \<times> world" where
  "main_args lib a w =
     (case load_texts (filesys w) (text_arg a) (texts_file a) of
        Inl e \<Rightarrow> (Inl e, w)
      | Inr texts \<Rightarrow>
          if texts = [] then
            (Inr 2, eprint w
               ''error: provide at least one --text or --texts-file with non-empty lines'')
          else if args.sequence_length a \<le> 0 then
            (Inr 2, eprint w ''error: --sequence-length must be > 0'')
          else if args.batch_size a \<le> 0 then
            (Inr 2, eprint w ''error: --batch-size must be > 0'')
          else if args.top_k a < 0 then
            (Inr 2, eprint w ''error: --top-k must be >= 0'')
          else if args.prune_threshold a < 0 then
            (Inr 2, eprint w ''error: --prune-threshold must be >= 0'')
          else main_run lib a texts w)"

text \<open>\<open>main\<close>, from line 234: \<open>parse_args()\<close> returns the namespace, or \<open>argparse\<close> ends
  the process with its own status.\<close>

definition main :: "library \<Rightarrow> world \<Rightarrow> (error + int) \<times> world" where
  "main lib w =
     (case parse_args lib (argv w) of
        Inl ex \<Rightarrow>
          (Inr (exit_status ex),
           w\<lparr>stdout := stdout w @ to_stdout ex, stderr := stderr w @ to_stderr ex\<rparr>)
      | Inr a \<Rightarrow> main_args lib a w)"

subsection \<open>Notions used in the statements\<close>

text \<open>The relation "\<open>p\<close> is selected before \<open>q\<close>": larger value first, the smaller index
  first among equal values.\<close>

definition ranks_before :: "nat \<times> real \<Rightarrow> nat \<times> real \<Rightarrow> bool" where
  "ranks_before p q = (snd q < snd p \<or> (snd q = snd p \<and> fst p < fst q))"

text \<open>The (index, value) pairs of a sparse vector.\<close>

definition kept_pairs :: "sparse_vector \<Rightarrow> (nat \<times> real) list" where
  "kept_pairs r = zip (indices r) (sparse_values r)"

text \<open>The shapes that tokenizer and model agree on: \<open>b\<close> documents, for each document as
  many logit rows as mask entries and at least one, every logit row of length \<open>v\<close>, and a
  mask of zeros and ones.\<close>

definition well_shaped :: "real list list list \<Rightarrow> int list list \<Rightarrow> nat \<Rightarrow> nat \<Rightarrow> bool" where
  "well_shaped logits masks b v =
     (length logits = b \<and> length masks = b
      \<and> (\<forall>d < b. length (logits ! d) = length (masks ! d) \<and> logits ! d \<noteq> []
            \<and> (\<forall>p < length (logits ! d).
                  length (logits ! d ! p) = v \<and> (masks ! d ! p = 0 \<or> masks ! d ! p = 1))))"






subsection \<open>Data for concrete runs\<close>

text \<open>A character-level tokenizer: the ids of a text are the code points of its first \<open>n\<close>
  characters, padded with 0 to length \<open>n\<close>; the token of id \<open>i\<close> is the \<open>i\<close>-th letter.\<close>

definition example_ids :: "int \<Rightarrow> string \<Rightarrow> nat list" where
  "example_ids n s =
     (let ids = take (nat n) (map of_char s) in ids @ replicate (nat n - length ids) 0)"

definition example_mask :: "int \<Rightarrow> string \<Rightarrow> int list" where
  "example_mask n s =
     (let m = min (nat n) (length s) in replicate m 1 @ replicate (nat n - m) 0)"

definition example_tokenizer :: tokenizer where
  "example_tokenizer =
     \<lparr>tokenize = (\<lambda>texts n.
        \<lparr>input_ids = map (example_ids n) texts, attention_mask = map (example_mask n) texts\<rparr>),
      id_to_token = (\<lambda>i. [''abcdefghijklmnopqrstuvwxyz'' ! (i mod 26)])\<rparr>"

text \<open>A text file of three non-empty and two blank lines, interleaved.\<close>

definition example_file :: string where
  "example_file = ''alpha'' @ [CHR 0x0A, CHR 0x0A] @ ''  beta '' @ [CHR 0x0D, CHR 0x0A, CHR 0x09, CHR 0x0A] @ ''gamma''"

definition example_fs :: filesystem where
  "example_fs = [[''tmp''] \<mapsto> Dir, [''tmp'', ''texts.txt''] \<mapsto> File example_file]"

text \<open>A model over a vocabulary of three entries: at each position the logit is 1 for
  the entry \<open>id mod 3\<close> and -1 for the two others.\<close>

definition example_logits :: "nat list \<Rightarrow> int list \<Rightarrow> real list list" where
  "example_logits ids ks = map (\<lambda>i. map (\<lambda>v. if i mod 3 = v then 1 else - 1) [0, 1, 2]) ids"

definition example_model :: model where
  "example_model enc = map2 example_logits (input_ids enc) (attention_mask enc)"

definition example_config :: encode_config where
  "example_config =
     \<lparr>model_name = ''example'', sequence_length = 3, batch_size = 2, top_k = 0,
      prune_threshold = 0, with_labels = True, device = ''cpu'', hf_token = None\<rparr>"



text \<open>A directory with an older output file in it.\<close>

definition example_out :: filesystem where
  "example_out = [[''out''] \<mapsto> Dir, [''out'', ''old.jsonl''] \<mapsto> File ''stale content'']"

text \<open>The target file of a write, or the error.\<close>

definition written :: "path \<Rightarrow> error + filesystem \<Rightarrow> error + node option" where
  "written p r = (case r of Inl e \<Rightarrow> Inl e | Inr fs \<Rightarrow> Inr (fs p))"












section \<open>Properties of the sparse conversion\<close>

lemma prune_pairs_foldl:
  "foldl (prune_step t) acc xs = acc @ filter (\<lambda>(idx, value). \<not> value \<le> t) xs"
  by (induction xs arbitrary: acc) (auto simp: prune_step_def)

lemma prune_pairs_filter:
  "prune_pairs row t = filter (\<lambda>(idx, value). \<not> value \<le> t) (enumerate 0 row)"
  by (simp add: prune_pairs_def prune_pairs_foldl)

lemma prune_pairs_set:
  "set (prune_pairs row t) = {(i, v). i < length row \<and> v = row ! i \<and> t < v}"
  by (auto simp: prune_pairs_filter in_set_enumerate_eq)

lemma prune_pairs_indices:
  "map fst (prune_pairs row t) = filter (\<lambda>i. t < row ! i) [0..<length row]"
proof -
  have "map fst (filter (\<lambda>(idx, value). \<not> value \<le> t) (enumerate 0 row))
        = filter (\<lambda>i. t < row ! i) (map fst (enumerate 0 row))"
    unfolding filter_map
    by (rule arg_cong[where f = "map fst"], rule filter_cong)
       (auto simp: in_set_enumerate_eq)
  then show ?thesis by (simp add: prune_pairs_filter)
qed

lemma prune_pairs_distinct: "distinct (map fst (prune_pairs row t))"
  by (simp add: prune_pairs_indices)

lemma prune_pairs_sorted: "sorted_wrt (<) (map fst (prune_pairs row t))"
  by (simp add: prune_pairs_indices sorted_wrt_filter)

lemma top_key_inj: "top_key p = top_key q \<longleftrightarrow> p = q"
  by (cases p, cases q) (auto simp: top_key_def)

lemma top_key_less: "top_key p < top_key q \<longleftrightarrow> ranks_before p q"
  by (cases p, cases q) (auto simp: top_key_def ranks_before_def less_prod_def)

lemma take_sorted_before:
  assumes "p \<in> set (take n (sort_key top_key pairs))"
      and "q \<in> set pairs" and "q \<notin> set (take n (sort_key top_key pairs))"
  shows "ranks_before p q"
proof -
  let ?s = "sort_key top_key pairs"
  have "q \<in> set ?s" using assms(2) by simp
  then have "q \<in> set (take n ?s) \<union> set (drop n ?s)"
    by (metis append_take_drop_id set_append)
  with assms(3) have q: "q \<in> set (drop n ?s)" by simp
  have "sorted (map top_key (take n ?s) @ map top_key (drop n ?s))"
    by (metis append_take_drop_id map_append sorted_sort_key)
  with assms(1) q have "top_key p \<le> top_key q"
    by (auto simp: sorted_append)
  moreover have "p \<noteq> q" using assms(1,3) by auto
  ultimately have "top_key p < top_key q"
    by (simp add: order_less_le top_key_inj)
  then show ?thesis by (simp add: top_key_less)
qed

lemma distinct_fst_imp_distinct: "distinct (map fst xs) \<Longrightarrow> distinct xs"
  by (simp add: distinct_map)

lemma distinct_fst_sort_key: "distinct (map fst (sort_key f xs)) = distinct (map fst xs)"
  by (simp add: distinct_map)

lemma distinct_fst_take: "distinct (map fst xs) \<Longrightarrow> distinct (map fst (take n xs))"
  by (simp add: take_map[symmetric])

lemma select_top_k_subset: "set (select_top_k k pairs) \<subseteq> set pairs"
  using set_take_subset[of "nat k" "sort_key top_key pairs"]
  by (auto simp: select_top_k_def)

lemma select_top_k_distinct:
  "distinct (map fst pairs) \<Longrightarrow> distinct (map fst (select_top_k k pairs))"
  by (simp add: select_top_k_def distinct_fst_take distinct_fst_sort_key)

lemma select_top_k_length:
  "length (select_top_k k pairs) =
     (if 0 < k \<and> k < int (length pairs) then nat k else length pairs)"
  by (auto simp: select_top_k_def)

lemma dense_row_to_sparse_kept:
  "kept_pairs (dense_row_to_sparse row tok k t wl) =
     sort_key fst (select_top_k k (prune_pairs row t))"
  by (simp add: kept_pairs_def dense_row_to_sparse_def Let_def zip_map_fst_snd)

lemma dense_row_to_sparse_indices:
  "indices (dense_row_to_sparse row tok k t wl) =
     map fst (sort_key fst (select_top_k k (prune_pairs row t)))"
  by (simp add: dense_row_to_sparse_def Let_def)

lemma dense_row_to_sparse_values:
  "sparse_values (dense_row_to_sparse row tok k t wl) =
     map snd (sort_key fst (select_top_k k (prune_pairs row t)))"
  by (simp add: dense_row_to_sparse_def Let_def)

lemma dense_row_to_sparse_labels:
  "labels (dense_row_to_sparse row tok k t wl) =
     (if wl \<and> indices (dense_row_to_sparse row tok k t wl) \<noteq> []
      then map (id_to_token tok) (indices (dense_row_to_sparse row tok k t wl)) else [])"
  by (simp add: dense_row_to_sparse_def Let_def convert_ids_to_tokens_def)

lemma indices_strict:
  "sorted_wrt (<) (indices (dense_row_to_sparse row tok k t wl))"
proof -
  let ?sel = "select_top_k k (prune_pairs row t)"
  have "distinct (map fst ?sel)"
    by (rule select_top_k_distinct) (rule prune_pairs_distinct)
  then have "distinct (map fst (sort_key fst ?sel))"
    by (simp add: distinct_fst_sort_key)
  moreover have "sorted (map fst (sort_key fst ?sel))"
    by (rule sorted_sort_key)
  ultimately show ?thesis
    by (simp add: dense_row_to_sparse_indices strict_sorted_iff)
qed

text \<open>
  \<^bold>\<open>C2\<close>. Among surviving pairs with pairwise different indices: when \<open>top_k\<close> is
  positive and smaller than the number of survivors, the selection keeps exactly \<open>top_k\<close> of
  them, and every kept pair ranks before every dropped one (larger value, or equal value
  and smaller index); when \<open>top_k\<close> is 0 (or not positive) or at least the number of
  survivors, all survivors are kept. The pairs of the returned vector are the selected
  ones, re-sorted by index.
\<close>
theorem top_k_selection:
  assumes "distinct (map fst pairs)"
  shows "(0 < k \<and> k < int (length pairs) \<longrightarrow>
            set (select_top_k k pairs) \<subseteq> set pairs
          \<and> distinct (select_top_k k pairs)
          \<and> length (select_top_k k pairs) = nat k
          \<and> (\<forall>p \<in> set (select_top_k k pairs).
               \<forall>q \<in> set pairs - set (select_top_k k pairs). ranks_before p q))
       \<and> (k \<le> 0 \<or> int (length pairs) \<le> k \<longrightarrow> select_top_k k pairs = pairs)
       \<and> kept_pairs (dense_row_to_sparse row tok k t wl) =
           sort_key fst (select_top_k k (prune_pairs row t))"
proof (intro conjI impI)
  show "set (select_top_k k pairs) \<subseteq> set pairs" by (rule select_top_k_subset)
  show "distinct (select_top_k k pairs)"
    using assms by (intro distinct_fst_imp_distinct select_top_k_distinct)
  show "length (select_top_k k pairs) = nat k"
    if "0 < k \<and> k < int (length pairs)"
    using that by (simp add: select_top_k_length)
  show "\<forall>p \<in> set (select_top_k k pairs).
          \<forall>q \<in> set pairs - set (select_top_k k pairs). ranks_before p q"
    if "0 < k \<and> k < int (length pairs)"
    using that by (auto simp: select_top_k_def intro: take_sorted_before)
  show "select_top_k k pairs = pairs" if "k \<le> 0 \<or> int (length pairs) \<le> k"
    using that by (auto simp: select_top_k_def)
  show "kept_pairs (dense_row_to_sparse row tok k t wl) =
           sort_key fst (select_top_k k (prune_pairs row t))"
    by (rule dense_row_to_sparse_kept)
qed

theorem top_k_selection_witness:
  "distinct (map fst [(0::nat, 1/2), (2, 2), (3, 1/2), (4, 1), (5, 2::real)])
   \<and> select_top_k 3 [(0, 1/2), (2, 2), (3, 1/2), (4, 1), (5, 2::real)] = [(2,2),(5,2),(4,1)]
   \<and> ranks_before (5, 2) (0, 1/2) \<and> ranks_before (4, 1) (3, 1/2)
   \<and> select_top_k 0 [(0, 1/2), (2, 2), (3, 1/2), (4, 1), (5, 2::real)] = [(0, 1/2), (2, 2), (3, 1/2), (4, 1), (5, 2::real)]
   \<and> select_top_k 5 [(0, 1/2), (2, 2), (3, 1/2), (4, 1), (5, 2::real)] = [(0, 1/2), (2, 2), (3, 1/2), (4, 1), (5, 2::real)]"
proof -
  let ?P = "[(0, 1/2), (2, 2), (3, 1/2), (4, 1), (5, 2)] :: (nat \<times> real) list"
  have d: "distinct (map fst ?P)" by simp
  note t3 = top_k_selection[OF d, of 3]
  note t0 = top_k_selection[OF d, of 0]
  note t5 = top_k_selection[OF d, of 5]
  have s: "select_top_k 3 ?P = [(2,2),(5,2),(4,1)]"
    by (simp add: select_top_k_def top_key_def less_eq_prod_def)
  from t3 have "\<forall>p \<in> set (select_top_k 3 ?P). \<forall>q \<in> set ?P - set (select_top_k 3 ?P). ranks_before p q"
    by simp
  then have "ranks_before (5, 2) (0, 1/2) \<and> ranks_before (4, 1) (3, 1/2)"
    unfolding s by simp
  moreover from t0 have "select_top_k 0 ?P = ?P" by simp
  moreover from t5 have "select_top_k 5 ?P = ?P" by simp
  ultimately show ?thesis using d s by simp
qed

lemma prune_pairs_snd: "map snd (prune_pairs row t) = map ((!) row) (map fst (prune_pairs row t))"
proof -
  have "\<forall>p \<in> set (prune_pairs row t). snd p = row ! fst p"
    by (auto simp: prune_pairs_set)
  then show ?thesis by (simp add: list_eq_iff_nth_eq)
qed

lemma sort_fst_prune_pairs: "sort_key fst (prune_pairs row t) = prune_pairs row t"
  using prune_pairs_sorted[of row t]
  by (intro sort_key_id_if_sorted) (simp add: strict_sorted_iff)

lemma kept_pairs_subset:
  "set (kept_pairs (dense_row_to_sparse row tok k t wl)) \<subseteq> set (prune_pairs row t)"
  using select_top_k_subset[of k "prune_pairs row t"]
  by (simp add: dense_row_to_sparse_kept)

lemma indices_subset:
  "set (indices (dense_row_to_sparse row tok k t wl)) \<subseteq> {i. i < length row \<and> t < row ! i}"
proof -
  have "set (indices (dense_row_to_sparse row tok k t wl))
          = fst ` set (select_top_k k (prune_pairs row t))"
    by (simp add: dense_row_to_sparse_indices)
  also have "\<dots> \<subseteq> fst ` set (prune_pairs row t)"
    by (intro image_mono select_top_k_subset)
  also have "\<dots> \<subseteq> {i. i < length row \<and> t < row ! i}"
    by (auto simp: prune_pairs_set)
  finally show ?thesis .
qed

text \<open>
  \<^bold>\<open>C1\<close>. For every row and threshold, the pruning loop keeps exactly the dimensions whose
  value is strictly greater than the threshold, in index order; every pair of the returned
  vector is such a dimension with its value; a dimension whose value is at most the
  threshold (in particular equal to it) is never among the returned indices; and without
  an effective top-k limit the returned indices and values are exactly those dimensions.
\<close>
theorem prune_threshold_exclusive:
  "set (prune_pairs row t) = {(i, v). i < length row \<and> v = row ! i \<and> t < v}
   \<and> map fst (prune_pairs row t) = filter (\<lambda>i. t < row ! i) [0..<length row]
   \<and> set (kept_pairs (dense_row_to_sparse row tok k t wl))
        \<subseteq> {(i, v). i < length row \<and> v = row ! i \<and> t < v}
   \<and> (\<forall>i < length row. row ! i \<le> t \<longrightarrow> i \<notin> set (indices (dense_row_to_sparse row tok k t wl)))
   \<and> (k \<le> 0 \<or> int (length (prune_pairs row t)) \<le> k \<longrightarrow>
        indices (dense_row_to_sparse row tok k t wl) = filter (\<lambda>i. t < row ! i) [0..<length row]
      \<and> sparse_values (dense_row_to_sparse row tok k t wl)
          = map ((!) row) (filter (\<lambda>i. t < row ! i) [0..<length row]))"
proof (intro conjI impI allI)
  show "set (prune_pairs row t) = {(i, v). i < length row \<and> v = row ! i \<and> t < v}"
    by (rule prune_pairs_set)
  show "map fst (prune_pairs row t) = filter (\<lambda>i. t < row ! i) [0..<length row]"
    by (rule prune_pairs_indices)
  show "set (kept_pairs (dense_row_to_sparse row tok k t wl))
        \<subseteq> {(i, v). i < length row \<and> v = row ! i \<and> t < v}"
    using kept_pairs_subset[of row tok k t wl] by (simp add: prune_pairs_set)
  show "i \<notin> set (indices (dense_row_to_sparse row tok k t wl))"
    if "i < length row" "row ! i \<le> t" for i
    using that indices_subset[of row tok k t wl] by auto
next
  assume "k \<le> 0 \<or> int (length (prune_pairs row t)) \<le> k"
  then have sel: "select_top_k k (prune_pairs row t) = prune_pairs row t"
    by (auto simp: select_top_k_def)
  show "indices (dense_row_to_sparse row tok k t wl) = filter (\<lambda>i. t < row ! i) [0..<length row]"
    by (simp add: dense_row_to_sparse_indices sel sort_fst_prune_pairs prune_pairs_indices)
  show "sparse_values (dense_row_to_sparse row tok k t wl)
          = map ((!) row) (filter (\<lambda>i. t < row ! i) [0..<length row])"
    by (simp add: dense_row_to_sparse_values sel sort_fst_prune_pairs prune_pairs_snd
        prune_pairs_indices)
qed

theorem prune_threshold_exclusive_witness:
  "prune_pairs [1/2, 0, 2, 1/2, 1, 2] 0 = [(0, 1/2), (2, 2), (3, 1/2), (4, 1), (5, 2)]
   \<and> 1 \<notin> set (indices (dense_row_to_sparse [1/2, 0, 2, 1/2, 1, 2] example_tokenizer 3 0 True))
   \<and> indices (dense_row_to_sparse [1/2, 0, 2, 1/2, 1, 2] example_tokenizer 0 0 True) = [0, 2, 3, 4, 5]
   \<and> sparse_values (dense_row_to_sparse [1/2, 0, 2, 1/2, 1, 2] example_tokenizer 0 0 True)
        = [1/2, 2, 1/2, 1, 2]"
proof -
  let ?row = "[1/2, 0, 2, 1/2, 1, 2] :: real list"
  have p: "prune_pairs ?row 0 = [(0, 1/2), (2, 2), (3, 1/2), (4, 1), (5, 2)]"
    by (simp add: prune_pairs_def prune_step_def enumerate_eq_zip upt_rec)
  have f: "filter (\<lambda>i. 0 < ?row ! i) [0..<length ?row] = [0, 2, 3, 4, 5]"
    by (simp add: upt_rec)
  note a = prune_threshold_exclusive[of ?row 0 example_tokenizer 3 True]
  note b = prune_threshold_exclusive[of ?row 0 example_tokenizer 0 True]
  from a have "\<forall>i < length ?row. ?row ! i \<le> 0 \<longrightarrow>
      i \<notin> set (indices (dense_row_to_sparse ?row example_tokenizer 3 0 True))"
    by blast
  then have "1 \<notin> set (indices (dense_row_to_sparse ?row example_tokenizer 3 0 True))"
    by simp
  moreover from b have "indices (dense_row_to_sparse ?row example_tokenizer 0 0 True) = [0, 2, 3, 4, 5]
     \<and> sparse_values (dense_row_to_sparse ?row example_tokenizer 0 0 True) = [1/2, 2, 1/2, 1, 2]"
    unfolding f by simp
  ultimately show ?thesis using p by simp
qed

text \<open>
  \<^bold>\<open>C4\<close>. Every vector returned by \<open>dense_row_to_sparse\<close> has strictly increasing
  (hence duplicate-free) indices, as many values as indices, and labels that are as many
  as the indices when labels are requested and the indices are non-empty, and empty
  otherwise.
\<close>
theorem sparse_vector_invariant:
  "sorted_wrt (<) (indices (dense_row_to_sparse row tok k t wl))
   \<and> distinct (indices (dense_row_to_sparse row tok k t wl))
   \<and> length (indices (dense_row_to_sparse row tok k t wl))
       = length (sparse_values (dense_row_to_sparse row tok k t wl))
   \<and> (if wl \<and> indices (dense_row_to_sparse row tok k t wl) \<noteq> []
      then length (labels (dense_row_to_sparse row tok k t wl))
             = length (indices (dense_row_to_sparse row tok k t wl))
      else labels (dense_row_to_sparse row tok k t wl) = [])"
proof (intro conjI)
  show s: "sorted_wrt (<) (indices (dense_row_to_sparse row tok k t wl))"
    by (rule indices_strict)
  then show "distinct (indices (dense_row_to_sparse row tok k t wl))"
    by (simp add: strict_sorted_iff)
  show "length (indices (dense_row_to_sparse row tok k t wl))
       = length (sparse_values (dense_row_to_sparse row tok k t wl))"
    by (simp add: dense_row_to_sparse_indices dense_row_to_sparse_values)
  show "if wl \<and> indices (dense_row_to_sparse row tok k t wl) \<noteq> []
      then length (labels (dense_row_to_sparse row tok k t wl))
             = length (indices (dense_row_to_sparse row tok k t wl))
      else labels (dense_row_to_sparse row tok k t wl) = []"
    by (simp add: dense_row_to_sparse_labels)
qed

theorem sparse_vector_invariant_witness:
  "dense_row_to_sparse [1/2, 0, 2, 1/2, 1, 2] example_tokenizer 3 0 True =
     \<lparr>indices = [2, 4, 5], sparse_values = [2, 1, 2], labels = [''c'', ''e'', ''f'']\<rparr>
   \<and> sorted_wrt (<) [2, 4, 5::nat]
   \<and> length (labels (dense_row_to_sparse [1/2, 0, 2, 1/2, 1, 2] example_tokenizer 3 0 True)) = 3
   \<and> labels (dense_row_to_sparse [1/2, 0, 2, 1/2, 1, 2] example_tokenizer 3 0 False) = []
   \<and> labels (dense_row_to_sparse [0, 0] example_tokenizer 3 0 True) = []"
proof -
  let ?row = "[1/2, 0, 2, 1/2, 1, 2] :: real list"
  have p: "prune_pairs ?row 0 = [(0, 1/2), (2, 2), (3, 1/2), (4, 1), (5, 2)]"
    by (simp add: prune_pairs_def prune_step_def enumerate_eq_zip upt_rec)
  have s: "select_top_k 3 [(0, 1/2), (2, 2), (3, 1/2), (4, 1), (5, 2::real)] = [(2, 2), (5, 2), (4, 1)]"
    by (simp add: select_top_k_def top_key_def less_eq_prod_def)
  have d: "dense_row_to_sparse ?row example_tokenizer 3 0 True =
     \<lparr>indices = [2, 4, 5], sparse_values = [2, 1, 2], labels = [''c'', ''e'', ''f'']\<rparr>"
    by (simp add: dense_row_to_sparse_def p s convert_ids_to_tokens_def example_tokenizer_def)
  have i: "indices (dense_row_to_sparse ?row example_tokenizer 3 0 False) = [2, 4, 5]"
    by (simp add: dense_row_to_sparse_def p s)
  have e: "indices (dense_row_to_sparse [0, 0] example_tokenizer 3 0 True) = []"
    by (simp add: dense_row_to_sparse_def prune_pairs_def prune_step_def enumerate_eq_zip
        upt_rec select_top_k_def)
  note a = sparse_vector_invariant[of ?row example_tokenizer 3 0 True]
  note b = sparse_vector_invariant[of ?row example_tokenizer 3 0 False]
  note c = sparse_vector_invariant[of "[0, 0]" example_tokenizer 3 0 True]
  from a have "sorted_wrt (<) [2, 4, 5::nat]
     \<and> length (labels (dense_row_to_sparse ?row example_tokenizer 3 0 True)) = 3"
    unfolding d by simp
  moreover from b have "labels (dense_row_to_sparse ?row example_tokenizer 3 0 False) = []"
    by simp
  moreover from c have "labels (dense_row_to_sparse [0, 0] example_tokenizer 3 0 True) = []"
    unfolding e by simp
  ultimately show ?thesis using d by simp
qed

section \<open>Properties of the text loader, the device resolver and the access token\<close>

lemma lstrip_decomp: "s = takeWhile isspace s @ lstrip s"
  by (simp add: lstrip_def)

lemma rstrip_decomp: "s = rstrip s @ rev (takeWhile isspace (rev s))"
proof -
  have "rev (rstrip s @ rev (takeWhile isspace (rev s)))
          = takeWhile isspace (rev s) @ dropWhile isspace (rev s)"
    by (simp add: rstrip_def)
  also have "\<dots> = rev s" by (rule takeWhile_dropWhile_id)
  finally show ?thesis by (simp only: rev_is_rev_conv)
qed

lemma strip_decomp:
  "\<exists>pre suf. s = pre @ strip s @ suf \<and> list_all isspace pre \<and> list_all isspace suf"
proof -
  let ?pre = "takeWhile isspace s"
  let ?suf = "rev (takeWhile isspace (rev (lstrip s)))"
  have "s = ?pre @ lstrip s" by (rule lstrip_decomp)
  moreover have "lstrip s = strip s @ ?suf"
    unfolding strip_def by (rule rstrip_decomp)
  ultimately have "s = ?pre @ strip s @ ?suf" by simp
  moreover have "list_all isspace ?pre"
    by (simp add: list_all_iff) (meson set_takeWhileD)
  moreover have "list_all isspace ?suf"
    by (simp add: list_all_iff) (meson set_takeWhileD)
  ultimately show ?thesis by blast
qed

lemma rstrip_Nil_iff: "rstrip s = [] \<longleftrightarrow> list_all isspace s"
  by (simp add: rstrip_def list_all_iff)

lemma strip_Nil_iff: "strip s = [] \<longleftrightarrow> list_all isspace s"
proof
  assume "strip s = []"
  with strip_decomp[of s] show "list_all isspace s"
    by (auto simp: list_all_iff)
next
  assume "list_all isspace s"
  then have "lstrip s = []"
    by (simp add: lstrip_def list_all_iff)
  then show "strip s = []" by (simp add: strip_def rstrip_def)
qed

lemma lstrip_hd: "lstrip s \<noteq> [] \<Longrightarrow> \<not> isspace (hd (lstrip s))"
  unfolding lstrip_def by (rule hd_dropWhile)

lemma rstrip_last: "rstrip s \<noteq> [] \<Longrightarrow> \<not> isspace (last (rstrip s))"
proof -
  assume a: "rstrip s \<noteq> []"
  then have "dropWhile isspace (rev s) \<noteq> []" by (simp add: rstrip_def)
  then have "\<not> isspace (hd (dropWhile isspace (rev s)))" by (rule hd_dropWhile)
  moreover have "last (rstrip s) = hd (dropWhile isspace (rev s))"
    by (simp add: rstrip_def last_rev)
  ultimately show ?thesis by simp
qed

lemma rstrip_hd: "rstrip s \<noteq> [] \<Longrightarrow> hd (rstrip s) = hd s"
proof -
  assume a: "rstrip s \<noteq> []"
  have "s = rstrip s @ rev (takeWhile isspace (rev s))" by (rule rstrip_decomp)
  then have "hd s = hd (rstrip s @ rev (takeWhile isspace (rev s)))" by simp
  with a show ?thesis by simp
qed

lemma strip_ends:
  assumes "strip s \<noteq> []"
  shows "\<not> isspace (hd (strip s)) \<and> \<not> isspace (last (strip s))"
proof
  from assms have l: "lstrip s \<noteq> []" by (auto simp: strip_def rstrip_def)
  have "hd (strip s) = hd (lstrip s)"
    using assms unfolding strip_def by (rule rstrip_hd)
  with lstrip_hd[OF l] show "\<not> isspace (hd (strip s))" by simp
  show "\<not> isspace (last (strip s))"
    using assms unfolding strip_def by (rule rstrip_last)
qed

lemma load_step_foldl:
  "foldl load_step texts lines = texts @ filter (\<lambda>t. t \<noteq> []) (map strip lines)"
  by (induction lines arbitrary: texts) (auto simp: load_step_def Let_def)

lemma filter_strip_length:
  "length (filter (\<lambda>t. t \<noteq> []) (map strip lines))
     = length (filter (\<lambda>l. \<not> list_all isspace l) lines)"
  by (induction lines) (auto simp: strip_Nil_iff)

lemma split_lines_concat: "concat (split_lines cur s) = cur @ s"
  by (induction cur s rule: split_lines.induct) auto

lemma readlines_concat: "concat (readlines content) = universal_newlines content"
  by (simp add: readlines_def split_lines_concat)

text \<open>
  \<^bold>\<open>C7\<close>. Without a file the loader returns the inline strings as given. With a file it
  returns the inline strings, unmodified and in order, followed by the stripped lines of
  the file in file order, without those that strip to the empty string; so the number of
  texts is the number of inline strings plus the number of lines that are not
  whitespace-only. The lines of a file are its content, cut after each newline; \<open>strip\<close>
  removes a whitespace prefix and a whitespace suffix and leaves no whitespace at either
  end, and yields the empty string exactly on whitespace-only (or empty) lines.
\<close>

theorem load_texts_spec:
  "load_texts fs inline None = Inr inline
   \<and> (node_at fs file = Some (File content) \<longrightarrow>
        load_texts fs inline (Some file)
          = Inr (inline @ filter (\<lambda>t. t \<noteq> []) (map strip (readlines content)))
      \<and> (\<forall>texts. load_texts fs inline (Some file) = Inr texts \<longrightarrow>
            length texts = length inline
              + length (filter (\<lambda>l. \<not> list_all isspace l) (readlines content))))
   \<and> concat (readlines content) = universal_newlines content
   \<and> (strip line = [] \<longleftrightarrow> list_all isspace line)
   \<and> (\<exists>pre suf. line = pre @ strip line @ suf \<and> list_all isspace pre \<and> list_all isspace suf)
   \<and> (strip line \<noteq> [] \<longrightarrow> \<not> isspace (hd (strip line)) \<and> \<not> isspace (last (strip line)))"
proof (intro conjI impI allI)
  show "load_texts fs inline None = Inr inline" by (simp add: load_texts_def)
  show "concat (readlines content) = universal_newlines content" by (rule readlines_concat)
  show "strip line = [] \<longleftrightarrow> list_all isspace line" by (rule strip_Nil_iff)
  show "\<exists>pre suf. line = pre @ strip line @ suf \<and> list_all isspace pre \<and> list_all isspace suf"
    by (rule strip_decomp)
  show "\<not> isspace (hd (strip line))" if "strip line \<noteq> []"
    using strip_ends[OF that] by simp
  show "\<not> isspace (last (strip line))" if "strip line \<noteq> []"
    using strip_ends[OF that] by simp
next
  assume f: "node_at fs file = Some (File content)"
  then show l: "load_texts fs inline (Some file)
          = Inr (inline @ filter (\<lambda>t. t \<noteq> []) (map strip (readlines content)))"
    by (simp add: load_texts_def open_r_def load_step_foldl)
  fix texts assume "load_texts fs inline (Some file) = Inr texts"
  with l have "texts = inline @ filter (\<lambda>t. t \<noteq> []) (map strip (readlines content))"
    by simp
  then show "length texts = length inline
              + length (filter (\<lambda>l. \<not> list_all isspace l) (readlines content))"
    by (simp only: length_append filter_strip_length)
qed

lemma example_readlines:
  "readlines example_file =
     [''alpha'' @ [CHR 0x0A], [CHR 0x0A], ''  beta '' @ [CHR 0x0A], [CHR 0x09, CHR 0x0A], ''gamma'']"
  by (simp add: readlines_def example_file_def)

theorem load_texts_spec_witness:
  "node_at example_fs [''tmp'', ''texts.txt''] = Some (File example_file)
   \<and> length (filter (\<lambda>l. \<not> list_all isspace l) (readlines example_file)) = 3
   \<and> length (filter (list_all isspace) (readlines example_file)) = 2
   \<and> load_texts example_fs [] (Some [''tmp'', ''texts.txt'']) = Inr [''alpha'', ''beta'', ''gamma'']
   \<and> load_texts example_fs ['' x ''] (Some [''tmp'', ''texts.txt''])
        = Inr ['' x '', ''alpha'', ''beta'', ''gamma'']
   \<and> load_texts example_fs ['' x ''] None = Inr ['' x '']
   \<and> strip ''  beta '' = ''beta'' \<and> \<not> isspace (hd (strip ''  beta ''))"
proof -
  have n: "node_at example_fs [''tmp'', ''texts.txt''] = Some (File example_file)"
    by (simp add: node_at_def example_fs_def)
  have s: "map strip (readlines example_file) = [''alpha'', [], ''beta'', [], ''gamma'']"
    by (simp add: example_readlines strip_def lstrip_def rstrip_def isspace_def)
  have c: "length (filter (\<lambda>l. \<not> list_all isspace l) (readlines example_file)) = 3"
          "length (filter (list_all isspace) (readlines example_file)) = 2"
    by (simp_all add: example_readlines isspace_def)
  have b: "strip ''  beta '' = ''beta''"
    by (simp add: strip_def lstrip_def rstrip_def isspace_def)
  note a = load_texts_spec[of example_fs "[]" "[''tmp'', ''texts.txt'']" example_file
      "''  beta ''"]
  note a' = load_texts_spec[of example_fs "['' x '']" "[''tmp'', ''texts.txt'']" example_file
      "''  beta ''"]
  from a n have "load_texts example_fs [] (Some [''tmp'', ''texts.txt''])
      = Inr [''alpha'', ''beta'', ''gamma'']"
    by (simp add: s)
  moreover from a' n have "load_texts example_fs ['' x ''] (Some [''tmp'', ''texts.txt''])
        = Inr ['' x '', ''alpha'', ''beta'', ''gamma'']"
    by (simp add: s)
  moreover from a' have "load_texts example_fs ['' x ''] None = Inr ['' x '']"
    by simp
  moreover from a b have "\<not> isspace (hd (strip ''  beta ''))"
    by simp
  ultimately show ?thesis using n c b by simp
qed

text \<open>
  \<^bold>\<open>C8\<close>. A requested device other than \<open>auto\<close> is returned unmodified; \<open>auto\<close> resolves
  to \<open>cuda\<close> when CUDA is available, else to \<open>mps\<close> when the MPS backend exists and is
  available, else to \<open>cpu\<close>; in particular to \<open>cpu\<close> when both accelerators are unavailable.
\<close>

theorem resolve_device_spec:
  "(device_arg \<noteq> ''auto'' \<longrightarrow> resolve_device torch device_arg = device_arg)
   \<and> resolve_device torch ''auto''
       = (if cuda_is_available torch then ''cuda''
          else if has_mps torch \<and> mps_is_available torch then ''mps''
          else ''cpu'')
   \<and> (\<not> cuda_is_available torch \<and> \<not> mps_is_available torch \<longrightarrow>
        resolve_device torch ''auto'' = ''cpu'')"
  by (simp add: resolve_device_def)

theorem resolve_device_spec_witness:
  "resolve_device \<lparr>cuda_is_available = True, has_mps = True, mps_is_available = True\<rparr> ''mps'' = ''mps''
   \<and> resolve_device \<lparr>cuda_is_available = False, has_mps = True, mps_is_available = False\<rparr> ''cuda'' = ''cuda''
   \<and> resolve_device \<lparr>cuda_is_available = True, has_mps = True, mps_is_available = True\<rparr> ''auto'' = ''cuda''
   \<and> resolve_device \<lparr>cuda_is_available = False, has_mps = True, mps_is_available = True\<rparr> ''auto'' = ''mps''
   \<and> resolve_device \<lparr>cuda_is_available = False, has_mps = True, mps_is_available = False\<rparr> ''auto'' = ''cpu''
   \<and> resolve_device \<lparr>cuda_is_available = False, has_mps = False, mps_is_available = False\<rparr> ''auto'' = ''cpu''"
  using
    resolve_device_spec[of "''mps''" "\<lparr>cuda_is_available = True, has_mps = True, mps_is_available = True\<rparr>"]
    resolve_device_spec[of "''cuda''" "\<lparr>cuda_is_available = False, has_mps = True, mps_is_available = False\<rparr>"]
    resolve_device_spec[of "''auto''" "\<lparr>cuda_is_available = False, has_mps = True, mps_is_available = True\<rparr>"]
    resolve_device_spec[of "''auto''" "\<lparr>cuda_is_available = False, has_mps = True, mps_is_available = False\<rparr>"]
    resolve_device_spec[of "''auto''" "\<lparr>cuda_is_available = False, has_mps = False, mps_is_available = False\<rparr>"]
  by simp

text \<open>
  \<^bold>\<open>C10\<close>. The access token is \<open>None\<close> exactly when the environment variable is unset,
  empty or whitespace-only; otherwise it is the variable's value with the leading and
  trailing whitespace stripped.
\<close>

theorem hf_token_spec:
  "(resolve_hf_token env name = None \<longleftrightarrow>
      env name = None \<or> (\<exists>v. env name = Some v \<and> list_all isspace v))
   \<and> (\<forall>v. env name = Some v \<and> \<not> list_all isspace v \<longrightarrow>
         resolve_hf_token env name = Some (strip v)
       \<and> (\<exists>pre suf. v = pre @ strip v @ suf \<and> list_all isspace pre \<and> list_all isspace suf)
       \<and> \<not> isspace (hd (strip v)) \<and> \<not> isspace (last (strip v)))"
proof (intro conjI allI impI)
  show "resolve_hf_token env name = None \<longleftrightarrow>
      env name = None \<or> (\<exists>v. env name = Some v \<and> list_all isspace v)"
    by (cases "env name") (simp_all add: resolve_hf_token_def getenv_def Let_def strip_Nil_iff)
next
  fix v assume a: "env name = Some v \<and> \<not> list_all isspace v"
  then have ne: "strip v \<noteq> []" by (simp add: strip_Nil_iff)
  with a show "resolve_hf_token env name = Some (strip v)"
    by (simp add: resolve_hf_token_def getenv_def Let_def)
  show "\<exists>pre suf. v = pre @ strip v @ suf \<and> list_all isspace pre \<and> list_all isspace suf"
    by (rule strip_decomp)
  from strip_ends[OF ne] show "\<not> isspace (hd (strip v))" "\<not> isspace (last (strip v))"
    by simp_all
qed

theorem hf_token_spec_witness:
  "resolve_hf_token Map.empty ''HF_TOKEN'' = None
   \<and> resolve_hf_token [''HF_TOKEN'' \<mapsto> []] ''HF_TOKEN'' = None
   \<and> resolve_hf_token [''HF_TOKEN'' \<mapsto> [CHR '' '', CHR 0x09, CHR 0x0A]] ''HF_TOKEN'' = None
   \<and> resolve_hf_token [''HF_TOKEN'' \<mapsto> '' hf_abc '' @ [CHR 0x0A]] ''HF_TOKEN'' = Some ''hf_abc''
   \<and> resolve_hf_token [''HF_TOKEN'' \<mapsto> ''hf_abc''] ''HF_TOKEN'' = Some ''hf_abc''"
proof -
  note a = hf_token_spec[of Map.empty "''HF_TOKEN''"]
  note b = hf_token_spec[of "[''HF_TOKEN'' \<mapsto> []]" "''HF_TOKEN''"]
  note c = hf_token_spec[of "[''HF_TOKEN'' \<mapsto> [CHR '' '', CHR 0x09, CHR 0x0A]]" "''HF_TOKEN''"]
  note d = hf_token_spec[of "[''HF_TOKEN'' \<mapsto> '' hf_abc '' @ [CHR 0x0A]]" "''HF_TOKEN''"]
  note e = hf_token_spec[of "[''HF_TOKEN'' \<mapsto> ''hf_abc'']" "''HF_TOKEN''"]
  have s: "strip ('' hf_abc '' @ [CHR 0x0A]) = ''hf_abc''" "strip ''hf_abc'' = ''hf_abc''"
    by (simp_all add: strip_def lstrip_def rstrip_def isspace_def)
  from a have "resolve_hf_token Map.empty ''HF_TOKEN'' = None" by simp
  moreover from b have "resolve_hf_token [''HF_TOKEN'' \<mapsto> []] ''HF_TOKEN'' = None" by simp
  moreover from c have
    "resolve_hf_token [''HF_TOKEN'' \<mapsto> [CHR '' '', CHR 0x09, CHR 0x0A]] ''HF_TOKEN'' = None"
    by (simp add: isspace_def)
  moreover from d s have
    "resolve_hf_token [''HF_TOKEN'' \<mapsto> '' hf_abc '' @ [CHR 0x0A]] ''HF_TOKEN'' = Some ''hf_abc''"
    by (simp add: isspace_def)
  moreover from e s have
    "resolve_hf_token [''HF_TOKEN'' \<mapsto> ''hf_abc''] ''HF_TOKEN'' = Some ''hf_abc''"
    by (simp add: isspace_def)
  ultimately show ?thesis by simp
qed

section \<open>Properties of the batch encoder\<close>

lemma sequence_err_map_Inr:
  "(\<And>x. x \<in> set xs \<Longrightarrow> f x = Inr (g x)) \<Longrightarrow> sequence_err (map f xs) = Inr (map g xs)"
  by (induction xs) auto

lemma foldl_map2_max_length:
  "(\<And>row. row \<in> set rs \<Longrightarrow> length row = length r) \<Longrightarrow>
     length (foldl (map2 max) r rs) = length r"
  by (induction rs arbitrary: r) auto

lemma foldl_map2_max_nth:
  fixes r :: "real list"
  shows "(\<And>row. row \<in> set rs \<Longrightarrow> length row = length r) \<Longrightarrow> v < length r \<Longrightarrow>
     foldl (map2 max) r rs ! v = foldl max (r ! v) (map (\<lambda>row. row ! v) rs)"
  by (induction rs arbitrary: r) auto

lemma foldl_max_Max:
  fixes x :: real
  shows "foldl max x xs = Max (set (x # xs))"
proof -
  have "foldl max x xs = fold max xs x"
    by (simp add: foldl_conv_fold max.commute)
  then show ?thesis by (simp only: Max.set_eq_fold)
qed

lemma nth_image_lessThan: "(\<lambda>row. f row) ` set rows = (\<lambda>p. f (rows ! p)) ` {..<length rows}"
proof -
  have "set rows = (\<lambda>p. rows ! p) ` {..<length rows}"
    by (auto simp: in_set_conv_nth)
  then have "f ` set rows = f ` ((\<lambda>p. rows ! p) ` {..<length rows})" by simp
  then show ?thesis by (simp only: image_image)
qed

lemma max_dim1_doc_nth:
  fixes rows :: "real list list"
  assumes "rows \<noteq> []" and "\<And>row. row \<in> set rows \<Longrightarrow> length row = n" and "v < n"
  shows "foldl (map2 max) (hd rows) (tl rows) ! v = Max ((\<lambda>p. rows ! p ! v) ` {..<length rows})"
proof -
  from assms(1) obtain r rs where rows: "rows = r # rs" by (cases rows) auto
  have len: "\<And>row. row \<in> set rs \<Longrightarrow> length row = length r"
    using assms(2) rows by simp
  have "v < length r" using assms(2,3) rows by simp
  with len have "foldl (map2 max) r rs ! v = foldl max (r ! v) (map (\<lambda>row. row ! v) rs)"
    by (rule foldl_map2_max_nth)
  also have "\<dots> = Max (set (r ! v # map (\<lambda>row. row ! v) rs))"
    by (rule foldl_max_Max)
  also have "set (r ! v # map (\<lambda>row. row ! v) rs) = (\<lambda>row. row ! v) ` set rows"
    by (simp add: rows)
  also have "\<dots> = (\<lambda>p. rows ! p ! v) ` {..<length rows}"
    by (rule nth_image_lessThan)
  finally show ?thesis by (simp add: rows)
qed

lemma max_dim1_doc_length:
  fixes rows :: "real list list"
  assumes "rows \<noteq> []" and "\<And>row. row \<in> set rows \<Longrightarrow> length row = n"
  shows "length (foldl (map2 max) (hd rows) (tl rows)) = n"
proof -
  from assms(1) obtain r rs where rows: "rows = r # rs" by (cases rows) auto
  have "length (foldl (map2 max) r rs) = length r"
    by (rule foldl_map2_max_length) (use assms(2) rows in simp)
  then show ?thesis using assms(2) rows by simp
qed

lemma max_dim1_doc_Inr:
  "rows \<noteq> [] \<Longrightarrow> max_dim1_doc rows = Inr (foldl (map2 max) (hd rows) (tl rows))"
  by (cases rows) (auto simp: max_dim1_doc_def)

lemma log1p_relu_nonneg: "0 \<le> log1p (relu x)"
  by (simp add: log1p_def relu_def)

lemma masked_max:
  fixes a :: "nat \<Rightarrow> real" and k :: "nat \<Rightarrow> int"
  assumes n: "0 < n" and a: "\<And>p. p < n \<Longrightarrow> 0 \<le> a p"
      and k: "\<And>p. p < n \<Longrightarrow> k p = 0 \<or> k p = 1"
  shows "Max ((\<lambda>p. of_int (k p) * a p) ` {..<n}) = Max (insert 0 (a ` {p. p < n \<and> k p = 1}))"
    and "0 \<le> Max ((\<lambda>p. of_int (k p) * a p) ` {..<n})"
proof -
  let ?A = "(\<lambda>p. of_int (k p) * a p) ` {..<n}"
  let ?B = "insert 0 (a ` {p. p < n \<and> k p = 1})"
  have finA: "finite ?A" and neA: "?A \<noteq> {}" using n by auto
  have finB: "finite ?B" and neB: "?B \<noteq> {}" by auto
  have "of_int (k 0) * a 0 \<in> ?A" using n by blast
  moreover have "0 \<le> of_int (k 0) * a 0" using a[OF n] k[OF n] by auto
  ultimately show nonneg: "0 \<le> Max ?A"
    using finA by (meson Max_ge order_trans)
  have "Max ?A \<le> Max ?B"
  proof (rule Max.boundedI[OF finA neA])
    fix x assume "x \<in> ?A"
    then obtain p where p: "p < n" "x = of_int (k p) * a p" by auto
    from k[OF p(1)] have "x \<in> ?B"
    proof
      assume "k p = 0" then show ?thesis using p by simp
    next
      assume "k p = 1" then show ?thesis using p by auto
    qed
    then show "x \<le> Max ?B" using finB by (rule Max_ge[rotated])
  qed
  moreover have "Max ?B \<le> Max ?A"
  proof (rule Max.boundedI[OF finB neB])
    fix x assume "x \<in> ?B"
    then consider "x = 0" | p where "p < n" "k p = 1" "x = a p" by auto
    then show "x \<le> Max ?A"
    proof cases
      case 1 then show ?thesis using nonneg by simp
    next
      case 2
      then have "x = of_int (k p) * a p" by simp
      with 2(1) have "x \<in> ?A" by blast
      then show ?thesis using finA by (rule Max_ge[rotated])
    qed
  qed
  ultimately show "Max ?A = Max ?B" by (rule order_antisym)
qed

lemma mul_mask_Inr:
  assumes "length transformed = length masks"
      and "\<And>d. d < length masks \<Longrightarrow> length (transformed ! d) = length (masks ! d)"
  shows "mul_mask transformed masks =
           Inr (map (\<lambda>(rows, ks). map2 (\<lambda>vec k. map (\<lambda>x. x * of_int k) vec) rows ks)
                  (zip transformed masks))"
proof -
  have "mul_mask_doc rows ks = Inr (map2 (\<lambda>vec k. map (\<lambda>x. x * of_int k) vec) rows ks)"
    if "(rows, ks) \<in> set (zip transformed masks)" for rows ks
  proof -
    from that obtain d where "d < length masks" "rows = transformed ! d" "ks = masks ! d"
      by (auto simp: in_set_zip)
    with assms(2) show ?thesis by (simp add: mul_mask_doc_def)
  qed
  then have "sequence_err (map (\<lambda>(rows, ks). mul_mask_doc rows ks) (zip transformed masks))
      = Inr (map (\<lambda>(rows, ks). map2 (\<lambda>vec k. map (\<lambda>x. x * of_int k) vec) rows ks)
                  (zip transformed masks))"
    by (intro sequence_err_map_Inr) auto
  with assms(1) show ?thesis by (simp add: mul_mask_def)
qed

lemma max_dim1_Inr:
  assumes "\<And>rows. rows \<in> set masked \<Longrightarrow> rows \<noteq> []"
  shows "max_dim1 masked = Inr (map (\<lambda>rows. foldl (map2 max) (hd rows) (tl rows)) masked)"
  unfolding max_dim1_def
  by (intro sequence_err_map_Inr max_dim1_doc_Inr assms)

text \<open>
  \<^bold>\<open>C3\<close>. When tokenizer and model return tensors of agreeing shapes (one row per
  document, at least one position, a mask of zeros and ones), the batch encoder succeeds,
  hands exactly the dense rows to \<open>dense_row_to_sparse\<close>, and every component of the dense
  row of a document is the maximum over the token positions of
  \<open>attention_mask(position) * ln (1 + max 0 (logit position dimension))\<close>. Every component
  is non-negative, and it equals the maximum of 0 and the activations at the unmasked
  positions: the logits at padding positions contribute zero.
\<close>

theorem dense_activation_formula:
  assumes tk: "tokenized = tokenize tok texts (sequence_length cfg)"
      and lg: "logits = m tokenized"
      and ws: "well_shaped logits (attention_mask tokenized) (length texts) n"
  shows "\<exists>dense.
      dense_activations texts tok m cfg = Inr dense
    \<and> encode_batch_sparse texts tok m cfg
        = Inr (map (\<lambda>row. dense_row_to_sparse row tok
                     (top_k cfg) (prune_threshold cfg) (with_labels cfg)) dense)
    \<and> length dense = length texts
    \<and> (\<forall>d < length texts. length (dense ! d) = n
         \<and> (\<forall>v < n.
               dense ! d ! v
                 = Max ((\<lambda>p. of_int (attention_mask tokenized ! d ! p)
                               * ln (1 + max 0 (logits ! d ! p ! v)))
                        ` {..<length (logits ! d)})
             \<and> 0 \<le> dense ! d ! v
             \<and> dense ! d ! v
                 = Max (insert 0 ((\<lambda>p. ln (1 + max 0 (logits ! d ! p ! v)))
                        ` {p. p < length (logits ! d) \<and> attention_mask tokenized ! d ! p = 1}))))"
proof -
  let ?b = "length texts"
  let ?masks = "attention_mask tokenized"
  let ?act = "\<lambda>x. log1p (relu x)"
  let ?transformed = "map (map (map ?act)) logits"
  let ?mul = "\<lambda>(rows, ks). map2 (\<lambda>vec k. map (\<lambda>x. x * of_int k) vec) rows ks"
  let ?masked = "map ?mul (zip ?transformed ?masks)"
  let ?dense = "map (\<lambda>rows. foldl (map2 max) (hd rows) (tl rows)) ?masked"
  from ws have lens: "length logits = ?b" "length ?masks = ?b"
    by (simp_all add: well_shaped_def)
  from ws have doc: "length (logits ! d) = length (?masks ! d)" "logits ! d \<noteq> []"
    if "d < ?b" for d using that by (simp_all add: well_shaped_def)
  from ws have pos: "length (logits ! d ! p) = n" "?masks ! d ! p = 0 \<or> ?masks ! d ! p = 1"
    if "d < ?b" "p < length (logits ! d)" for d p using that by (simp_all add: well_shaped_def)
  have mul: "mul_mask ?transformed ?masks = Inr ?masked"
    by (rule mul_mask_Inr) (simp_all add: lens doc)
  have masked_d: "?masked ! d = map2 (\<lambda>vec k. map (\<lambda>x. x * of_int k) vec)
       (map (map ?act) (logits ! d)) (?masks ! d)" if "d < ?b" for d
    using that by (simp add: lens)
  have masked_len: "length (?masked ! d) = length (logits ! d)" if "d < ?b" for d
    using that by (simp add: masked_d doc)
  have masked_p: "?masked ! d ! p = map (\<lambda>x. ?act x * of_int (?masks ! d ! p)) (logits ! d ! p)"
    if "d < ?b" "p < length (logits ! d)" for d p
    using that by (simp add: masked_d doc)
  have ne: "rows \<noteq> []" if "rows \<in> set ?masked" for rows
  proof -
    from that obtain d where d: "d < length ?masked" "rows = ?masked ! d"
      by (metis in_set_conv_nth)
    then have "d < ?b" by (simp add: lens)
    with masked_len[of d] doc(2)[of d] d(2) show ?thesis by auto
  qed
  have mx: "max_dim1 ?masked = Inr ?dense"
    by (rule max_dim1_Inr) (rule ne)
  have dense: "dense_activations texts tok m cfg = Inr ?dense"
    by (simp add: dense_activations_def Let_def tk[symmetric] lg[symmetric] mul mx)
  have enc: "encode_batch_sparse texts tok m cfg
        = Inr (map (\<lambda>row. dense_row_to_sparse row tok
                     (top_k cfg) (prune_threshold cfg) (with_labels cfg)) ?dense)"
    by (simp only: encode_batch_sparse_def dense sum.case)
  have len: "length ?dense = ?b" by (simp add: lens)
  have main: "length (?dense ! d) = n
         \<and> (\<forall>v < n.
               ?dense ! d ! v
                 = Max ((\<lambda>p. of_int (?masks ! d ! p) * ln (1 + max 0 (logits ! d ! p ! v)))
                        ` {..<length (logits ! d)})
             \<and> 0 \<le> ?dense ! d ! v
             \<and> ?dense ! d ! v
                 = Max (insert 0 ((\<lambda>p. ln (1 + max 0 (logits ! d ! p ! v)))
                        ` {p. p < length (logits ! d) \<and> ?masks ! d ! p = 1})))"
    if d: "d < ?b" for d
  proof -
    let ?rows = "?masked ! d"
    have dd: "?dense ! d = foldl (map2 max) (hd ?rows) (tl ?rows)"
      using d by (simp add: lens)
    have rne: "?rows \<noteq> []" using masked_len[OF d] doc(2)[OF d] by auto
    have rlen: "length row = n" if "row \<in> set ?rows" for row
    proof -
      from that obtain p where "p < length ?rows" "row = ?rows ! p"
        by (metis in_set_conv_nth)
      then show ?thesis using masked_len[OF d] masked_p[OF d] pos(1)[OF d] by simp
    qed
    have l: "length (?dense ! d) = n"
      unfolding dd using rne rlen by (rule max_dim1_doc_length)
    have f: "?dense ! d ! v
                 = Max ((\<lambda>p. of_int (?masks ! d ! p) * ln (1 + max 0 (logits ! d ! p ! v)))
                        ` {..<length (logits ! d)})" if v: "v < n" for v
    proof -
      have "?dense ! d ! v = Max ((\<lambda>p. ?rows ! p ! v) ` {..<length ?rows})"
        unfolding dd using rne rlen v by (rule max_dim1_doc_nth)
      also have "\<dots> = Max ((\<lambda>p. ?rows ! p ! v) ` {..<length (logits ! d)})"
        by (simp only: masked_len[OF d])
      also have "(\<lambda>p. ?rows ! p ! v) ` {..<length (logits ! d)}
          = (\<lambda>p. of_int (?masks ! d ! p) * ln (1 + max 0 (logits ! d ! p ! v)))
                        ` {..<length (logits ! d)}"
      proof (rule image_cong[OF refl])
        fix p assume "p \<in> {..<length (logits ! d)}"
        then have p: "p < length (logits ! d)" by simp
        show "?rows ! p ! v = of_int (?masks ! d ! p) * ln (1 + max 0 (logits ! d ! p ! v))"
          using v pos(1)[OF d p]
          by (subst masked_p[OF d p]) (simp add: log1p_def relu_def mult.commute)
      qed
      finally show ?thesis .
    qed
    have g: "0 \<le> Max ((\<lambda>p. of_int (?masks ! d ! p) * ln (1 + max 0 (logits ! d ! p ! v)))
                        ` {..<length (logits ! d)})"
        "Max ((\<lambda>p. of_int (?masks ! d ! p) * ln (1 + max 0 (logits ! d ! p ! v)))
                        ` {..<length (logits ! d)})
         = Max (insert 0 ((\<lambda>p. ln (1 + max 0 (logits ! d ! p ! v)))
                        ` {p. p < length (logits ! d) \<and> ?masks ! d ! p = 1}))" for v
    proof -
      have n0: "0 < length (logits ! d)" using doc(2)[OF d] by simp
      have a: "0 \<le> ln (1 + max 0 (logits ! d ! p ! v))" for p by simp
      show "0 \<le> Max ((\<lambda>p. of_int (?masks ! d ! p) * ln (1 + max 0 (logits ! d ! p ! v)))
                        ` {..<length (logits ! d)})"
        by (rule masked_max(2)[OF n0 a pos(2)[OF d]])
      show "Max ((\<lambda>p. of_int (?masks ! d ! p) * ln (1 + max 0 (logits ! d ! p ! v)))
                        ` {..<length (logits ! d)})
         = Max (insert 0 ((\<lambda>p. ln (1 + max 0 (logits ! d ! p ! v)))
                        ` {p. p < length (logits ! d) \<and> ?masks ! d ! p = 1}))"
        by (rule masked_max(1)[OF n0 a pos(2)[OF d]])
    qed
    show ?thesis using l f g by simp
  qed
  show ?thesis
    apply (rule exI[of _ ?dense])
    using dense enc len main by blast
qed

lemma example_tokenize_ab:
  "tokenize example_tokenizer [''ab''] 3 = \<lparr>input_ids = [[97, 98, 0]], attention_mask = [[1, 1, 0]]\<rparr>"
  by (simp add: example_tokenizer_def example_ids_def example_mask_def)

lemma example_model_ab:
  "example_model \<lparr>input_ids = [[97, 98, 0]], attention_mask = [[1, 1, 0]]\<rparr>
     = [[[- 1, 1, - 1], [- 1, - 1, 1], [1, - 1, - 1]]]"
  by (simp add: example_model_def example_logits_def)

lemma example_dense_ab:
  "dense_activations [''ab''] example_tokenizer example_model example_config
     = Inr [[0, ln 2, ln 2]]"
  by (simp add: dense_activations_def example_config_def example_tokenize_ab example_model_ab
      mul_mask_def mul_mask_doc_def max_dim1_def max_dim1_doc_def log1p_def relu_def)

lemma example_sparse_ab:
  "dense_row_to_sparse [0, ln 2, ln 2] example_tokenizer 0 0 True
     = \<lparr>indices = [1, 2], sparse_values = [ln 2, ln 2], labels = [''b'', ''c'']\<rparr>"
  by (simp add: dense_row_to_sparse_def prune_pairs_def prune_step_def enumerate_eq_zip
        upt_rec select_top_k_def convert_ids_to_tokens_def example_tokenizer_def)

theorem dense_activation_formula_witness:
  "well_shaped (example_model (tokenize example_tokenizer [''ab''] 3))
      (attention_mask (tokenize example_tokenizer [''ab''] 3)) (length [''ab'']) 3
   \<and> example_model (tokenize example_tokenizer [''ab''] 3)
        = [[[- 1, 1, - 1], [- 1, - 1, 1], [1, - 1, - 1]]]
   \<and> attention_mask (tokenize example_tokenizer [''ab''] 3) = [[1, 1, 0]]
   \<and> dense_activations [''ab''] example_tokenizer example_model example_config
        = Inr [[0, ln 2, ln 2]]
   \<and> encode_batch_sparse [''ab''] example_tokenizer example_model example_config
        = Inr [\<lparr>indices = [1, 2], sparse_values = [ln 2, ln 2], labels = [''b'', ''c'']\<rparr>]"
proof -
  let ?tk = "tokenize example_tokenizer [''ab''] 3"
  have ws: "well_shaped (example_model ?tk) (attention_mask ?tk) (length [''ab'']) 3"
    by (simp add: example_tokenize_ab example_model_ab well_shaped_def nth_Cons'
        less_Suc_eq numeral_3_eq_3)
  have sl: "?tk = tokenize example_tokenizer [''ab''] (sequence_length example_config)"
    by (simp add: example_config_def)
  have lg: "example_model ?tk = example_model ?tk" by (rule refl)
  from dense_activation_formula[where m = example_model and tok = example_tokenizer
      and texts = "[''ab'']" and cfg = example_config and n = 3, OF sl lg ws]
  obtain dense where d: "dense_activations [''ab''] example_tokenizer example_model example_config
        = Inr dense"
    and e: "encode_batch_sparse [''ab''] example_tokenizer example_model example_config
        = Inr (map (\<lambda>row. dense_row_to_sparse row example_tokenizer
                     (top_k example_config) (prune_threshold example_config)
                     (with_labels example_config)) dense)"
    by blast
  from d have "dense = [[0, ln 2, ln 2]]" by (simp add: example_dense_ab)
  with e have "encode_batch_sparse [''ab''] example_tokenizer example_model example_config
        = Inr [\<lparr>indices = [1, 2], sparse_values = [ln 2, ln 2], labels = [''b'', ''c'']\<rparr>]"
    by (simp add: example_sparse_ab example_config_def)
  then show ?thesis
    using ws by (simp add: example_tokenize_ab example_model_ab example_dense_ab)
qed

section \<open>Properties of the loop over the batches\<close>






































section \<open>Properties of the output writers\<close>

lemma node_at_None: "node_at fs d = None \<Longrightarrow> d \<noteq> [] \<and> fs d = None"
  by (simp add: node_at_def split: if_splits)

lemma prefix_parent: "prefix q (parent d) \<Longrightarrow> prefix q d"
  by (metis parent_def prefix_order.trans prefixeq_butlast)

lemma mkdir_parents_spec:
  "mkdir_parents fs d = Inr fs' \<Longrightarrow>
     node_at fs' d = Some Dir
     \<and> (\<forall>q. fs' q = fs q \<or> (prefix q d \<and> fs q = None \<and> fs' q = Some Dir))"
proof (induction fs d arbitrary: fs' rule: mkdir_parents.induct)
  case (1 fs d)
  show ?case
  proof (cases "node_at fs d")
    case None
    then have d: "d \<noteq> []" "fs d = None" using node_at_None by auto
    show ?thesis
    proof (cases "node_at fs (parent d)")
      case pn: None
      from "1.prems" None pn obtain fs1 where r: "mkdir_parents fs (parent d) = Inr fs1"
        and fs': "fs' = fs1(d \<mapsto> Dir)"
        by (subst (asm) mkdir_parents.simps) (auto split: sum.splits)
      from "1.IH"[OF None pn r]
      have ih: "\<forall>q. fs1 q = fs q \<or> (prefix q (parent d) \<and> fs q = None \<and> fs1 q = Some Dir)"
        by simp
      have "fs' q = fs q \<or> (prefix q d \<and> fs q = None \<and> fs' q = Some Dir)" for q
      proof (cases "q = d")
        case True
        then show ?thesis using d fs' by simp
      next
        case False
        with ih[rule_format, of q] fs' show ?thesis by (auto dest: prefix_parent)
      qed
      moreover have "node_at fs' d = Some Dir" using d fs' by (simp add: node_at_def)
      ultimately show ?thesis by blast
    next
      case (Some n)
      with "1.prems" None have n: "n = Dir" and fs': "fs' = fs(d \<mapsto> Dir)"
        by (subst (asm) mkdir_parents.simps; cases n; simp)+
      then show ?thesis using d by (auto simp: node_at_def)
    qed
  next
    case (Some n)
    with "1.prems" have "n = Dir" and "fs' = fs"
      by (subst (asm) mkdir_parents.simps; cases n; simp)+
    with Some show ?thesis by simp
  qed
qed

lemma mkdir_parents_ok:
  "(\<And>q c. prefix q d \<Longrightarrow> node_at fs q \<noteq> Some (File c)) \<Longrightarrow> \<exists>fs'. mkdir_parents fs d = Inr fs'"
proof (induction fs d rule: mkdir_parents.induct)
  case (1 fs d)
  show ?case
  proof (cases "node_at fs d")
    case None
    show ?thesis
    proof (cases "node_at fs (parent d)")
      case pn: None
      have "\<exists>fs'. mkdir_parents fs (parent d) = Inr fs'"
        by (rule "1.IH"[OF None pn]) (use "1.prems" prefix_parent in blast)
      with None pn show ?thesis
        by (subst mkdir_parents.simps) auto
    next
      case (Some n)
      have "prefix (parent d) d" by (simp add: parent_def prefixeq_butlast)
      with "1.prems" Some have "n = Dir" by (cases n) auto
      with None Some show ?thesis by (subst mkdir_parents.simps) simp
    qed
  next
    case (Some n)
    with "1.prems"[of d] have "n = Dir" by (cases n) auto
    with Some show ?thesis by (subst mkdir_parents.simps) simp
  qed
qed

lemma open_w_spec: "open_w fs p = Inr fs' \<Longrightarrow> p \<noteq> [] \<and> fs' = fs(p \<mapsto> File [])"
  by (auto simp: open_w_def node_at_def split: option.splits node.splits if_splits)

lemma handle_write_file:
  "fs p = Some (File c) \<Longrightarrow> handle_write p fs s = fs(p \<mapsto> File (c @ s))"
  by (simp add: handle_write_def)

lemma write_rows_file:
  "fs p = Some (File c) \<Longrightarrow>
     foldl (write_row dumps p) fs rows
       = fs(p \<mapsto> File (c @ concat (map (\<lambda>r. dumps r @ [CHR 0x0A]) rows)))"
proof (induction rows arbitrary: fs c)
  case Nil
  then show ?case by (simp add: fun_upd_idem)
next
  case (Cons r rows)
  let ?c = "c @ dumps r @ [CHR 0x0A]"
  have w: "write_row dumps p fs r = fs(p \<mapsto> File ?c)"
    using Cons.prems by (simp add: write_row_def handle_write_file)
  have "foldl (write_row dumps p) (fs(p \<mapsto> File ?c)) rows
      = (fs(p \<mapsto> File ?c))(p \<mapsto> File (?c @ concat (map (\<lambda>r. dumps r @ [CHR 0x0A]) rows)))"
    by (rule Cons.IH) simp
  also have "\<dots> = fs(p \<mapsto> File (c @ concat (map (\<lambda>r. dumps r @ [CHR 0x0A]) (r # rows))))"
    by (simp only: fun_upd_upd) simp
  finally show ?case by (simp only: foldl_Cons w)
qed

lemma not_prefix_parent: "p \<noteq> [] \<Longrightarrow> \<not> prefix p (parent p)"
  by (metis parent_def length_butlast prefix_length_le diff_less length_greater_0_conv
      less_numeral_extra(1) not_le)

lemma prefix_parent_strict: "p \<noteq> [] \<Longrightarrow> prefix q (parent p) \<longleftrightarrow> strict_prefix q p"
proof
  assume "p \<noteq> []" "prefix q (parent p)"
  then show "strict_prefix q p"
    using prefix_parent not_prefix_parent by (metis strict_prefixI)
next
  assume p: "p \<noteq> []" and "strict_prefix q p"
  then obtain r where "p = q @ r" "r \<noteq> []" by (auto simp: strict_prefix_def prefix_def)
  then have "butlast p = q @ butlast r" by (simp add: butlast_append)
  then show "prefix q (parent p)" by (simp add: parent_def)
qed

lemma open_after_mkdir:
  assumes m: "mkdir_parents fs (parent p) = Inr fs1" and o: "open_w fs1 p = Inr fs2"
  shows "fs2 p = Some (File [])"
    and "\<And>q. q \<noteq> p \<Longrightarrow> fs2 q = fs q \<or> (strict_prefix q p \<and> fs q = None \<and> fs2 q = Some Dir)"
proof -
  from open_w_spec[OF o] have p: "p \<noteq> []" and fs2: "fs2 = fs1(p \<mapsto> File [])" by simp_all
  show "fs2 p = Some (File [])" by (simp add: fs2)
  fix q assume "q \<noteq> p"
  then have "fs2 q = fs1 q" by (simp add: fs2)
  with mkdir_parents_spec[OF m] show
    "fs2 q = fs q \<or> (strict_prefix q p \<and> fs q = None \<and> fs2 q = Some Dir)"
    using prefix_parent_strict[OF p] by metis
qed

lemma writer_open_ok:
  assumes nd: "node_at fs p \<noteq> Some Dir"
      and nf: "\<And>q c. strict_prefix q p \<Longrightarrow> node_at fs q \<noteq> Some (File c)"
  shows "\<exists>fs1 fs2. mkdir_parents fs (parent p) = Inr fs1 \<and> open_w fs1 p = Inr fs2"
proof -
  from nd have p: "p \<noteq> []" by (auto simp: node_at_def)
  have "\<exists>fs1. mkdir_parents fs (parent p) = Inr fs1"
    by (rule mkdir_parents_ok) (use nf prefix_parent_strict[OF p] in blast)
  then obtain fs1 where m: "mkdir_parents fs (parent p) = Inr fs1" by blast
  from mkdir_parents_spec[OF m] have pd: "node_at fs1 (parent p) = Some Dir"
    and fr: "fs1 p = fs p \<or> prefix p (parent p)" by blast+
  with not_prefix_parent[OF p] have "fs1 p = fs p" by simp
  with nd p have "node_at fs1 p \<noteq> Some Dir" by (simp add: node_at_def)
  with pd have "\<exists>fs2. open_w fs1 p = Inr fs2"
    by (auto simp: open_w_def split: option.splits node.splits)
  with m show ?thesis by blast
qed

text \<open>
  \<^bold>\<open>C9\<close>. When \<open>write_jsonl\<close> (\<open>write_metadata\<close>) completes, the target file holds
  exactly the serialised rows, each followed by a newline (the serialised metadata and a
  newline), whatever was at that path before; every other path is as before, except the
  missing ancestor directories of the target, which now exist. The write completes when
  the target is not a directory and no ancestor of it is a file.
\<close>

theorem writers_truncate:
  "(\<forall>fs'. write_jsonl dumps fs p rows = Inr fs' \<longrightarrow>
       fs' p = Some (File (concat (map (\<lambda>r. dumps r @ [CHR 0x0A]) rows)))
     \<and> (\<forall>q. q \<noteq> p \<longrightarrow>
           fs' q = fs q \<or> (strict_prefix q p \<and> fs q = None \<and> fs' q = Some Dir)))
   \<and> (\<forall>fs'. write_metadata dump fs p md = Inr fs' \<longrightarrow>
       fs' p = Some (File (dump md @ [CHR 0x0A]))
     \<and> (\<forall>q. q \<noteq> p \<longrightarrow>
           fs' q = fs q \<or> (strict_prefix q p \<and> fs q = None \<and> fs' q = Some Dir)))
   \<and> (node_at fs p \<noteq> Some Dir \<and> (\<forall>q c. strict_prefix q p \<longrightarrow> node_at fs q \<noteq> Some (File c)) \<longrightarrow>
        (\<exists>fs'. write_jsonl dumps fs p rows = Inr fs')
      \<and> (\<exists>fs'. write_metadata dump fs p md = Inr fs'))"
proof (intro conjI allI impI)
  fix fs' assume w: "write_jsonl dumps fs p rows = Inr fs'"
  then obtain fs1 fs2 where m: "mkdir_parents fs (parent p) = Inr fs1"
    and o: "open_w fs1 p = Inr fs2"
    and fs': "fs' = foldl (write_row dumps p) fs2 rows"
    by (auto simp: write_jsonl_def split: sum.splits)
  note oa = open_after_mkdir[OF m o]
  have e: "fs' = fs2(p \<mapsto> File ([] @ concat (map (\<lambda>r. dumps r @ [CHR 0x0A]) rows)))"
    unfolding fs' using oa(1) by (rule write_rows_file)
  then show "fs' p = Some (File (concat (map (\<lambda>r. dumps r @ [CHR 0x0A]) rows)))" by simp
  fix q assume q: "q \<noteq> p"
  with e have "fs' q = fs2 q" by simp
  with oa(2)[OF q] show "fs' q = fs q \<or> (strict_prefix q p \<and> fs q = None \<and> fs' q = Some Dir)"
    by simp
next
  fix fs' assume w: "write_metadata dump fs p md = Inr fs'"
  then obtain fs1 fs2 where m: "mkdir_parents fs (parent p) = Inr fs1"
    and o: "open_w fs1 p = Inr fs2"
    and fs': "fs' = handle_write p (handle_write p fs2 (dump md)) [CHR 0x0A]"
    by (auto simp: write_metadata_def split: sum.splits)
  note oa = open_after_mkdir[OF m o]
  have e: "fs' = fs2(p \<mapsto> File (dump md @ [CHR 0x0A]))"
    unfolding fs' using oa(1) by (simp add: handle_write_file)
  then show "fs' p = Some (File (dump md @ [CHR 0x0A]))" by simp
  fix q assume q: "q \<noteq> p"
  with e have "fs' q = fs2 q" by simp
  with oa(2)[OF q] show "fs' q = fs q \<or> (strict_prefix q p \<and> fs q = None \<and> fs' q = Some Dir)"
    by simp
next
  assume a: "node_at fs p \<noteq> Some Dir \<and> (\<forall>q c. strict_prefix q p \<longrightarrow> node_at fs q \<noteq> Some (File c))"
  then have "\<exists>fs1 fs2. mkdir_parents fs (parent p) = Inr fs1 \<and> open_w fs1 p = Inr fs2"
    by (intro writer_open_ok) auto
  then obtain fs1 fs2 where "mkdir_parents fs (parent p) = Inr fs1" "open_w fs1 p = Inr fs2"
    by blast
  then show "\<exists>fs'. write_jsonl dumps fs p rows = Inr fs'"
    and "\<exists>fs'. write_metadata dump fs p md = Inr fs'"
    by (simp_all add: write_jsonl_def write_metadata_def)
qed

lemma example_new_write:
  "written [''new'', ''v1''] (write_jsonl str_nat example_out [''new'', ''v1'', ''g.jsonl''] [7])
     = Inr (Some Dir)"
  by (simp add: written_def write_jsonl_def mkdir_parents.simps node_at_def parent_def
      example_out_def open_w_def write_row_def handle_write_def str_nat.simps digit_char_def)

theorem writers_truncate_witness:
  "node_at example_out [''out'', ''old.jsonl''] = Some (File ''stale content'')
   \<and> written [''out'', ''old.jsonl'']
        (write_jsonl str_nat example_out [''out'', ''old.jsonl''] [1, 2])
       = Inr (Some (File (''1'' @ [CHR 0x0A] @ ''2'' @ [CHR 0x0A])))
   \<and> written [''out'', ''old.jsonl'']
        (write_metadata str_nat example_out [''out'', ''old.jsonl''] 5)
       = Inr (Some (File (''5'' @ [CHR 0x0A])))
   \<and> written [''out'']
        (write_jsonl str_nat example_out [''out'', ''old.jsonl''] [1, 2])
       = Inr (Some Dir)
   \<and> written [''new'', ''v1'']
        (write_jsonl str_nat example_out [''new'', ''v1'', ''g.jsonl''] [7])
       = Inr (Some Dir)"
proof -
  let ?p = "[''out'', ''old.jsonl'']"
  note t = writers_truncate[of str_nat example_out ?p "[1, 2]" str_nat 5]
  have old: "node_at example_out ?p = Some (File ''stale content'')"
    by (simp add: node_at_def example_out_def)
  have nd: "node_at example_out ?p \<noteq> Some Dir" by (simp add: old)
  have nf: "\<forall>q c. strict_prefix q ?p \<longrightarrow> node_at example_out q \<noteq> Some (File c)"
    by (auto simp: strict_prefix_def prefix_Cons node_at_def example_out_def)
  from t nd nf obtain fs' fs'' where w: "write_jsonl str_nat example_out ?p [1, 2] = Inr fs'"
    and m: "write_metadata str_nat example_out ?p 5 = Inr fs''"
    by blast
  from t w have c: "fs' ?p = Some (File (concat (map (\<lambda>r. str_nat r @ [CHR 0x0A]) [1, 2])))"
    and f: "fs' [''out''] = example_out [''out'']
              \<or> (strict_prefix [''out''] ?p \<and> example_out [''out''] = None \<and> fs' [''out''] = Some Dir)"
    by auto
  from t m have c': "fs'' ?p = Some (File (str_nat 5 @ [CHR 0x0A]))"
    by blast
  from f have d: "fs' [''out''] = Some Dir" by (auto simp: example_out_def)
  from c c' d w m old example_new_write show ?thesis
    by (simp add: written_def str_nat.simps digit_char_def)
qed

section \<open>Properties of \<open>main\<close>\<close>























end
